theory Spec2Isabelle
  imports Main "HOL-Library.AList" "HOL-Library.Sublist"
begin

section \<open>JSON values and the Python operations used by \<^verbatim>\<open>main.py\<close>\<close>

text \<open>
  Every handler of \<^verbatim>\<open>main.py\<close> works on parsed JSON: nested dicts, lists, strings,
  numbers, booleans and \<^verbatim>\<open>None\<close>. Objects are association lists in insertion order
  (a parsed object has distinct keys). Numbers are Python's unbounded integers;
  non-integer numbers are not part of this model. A \<open>string\<close> is a list of
  characters with code points below 256.
\<close>

datatype json =
    JNull
  | JBool bool
  | JInt int
  | JStr string
  | JArr "json list"
  | JObj "(string \<times> json) list"

text \<open>The exceptions that the code raises or that its library calls raise.\<close>

datatype exn =
    HTTPException int string
  | RequestException string
  | ValueError
  | AttributeError
  | TypeError
  | UnicodeEncodeError

text \<open>\<^verbatim>\<open>not x\<close> is the negation of Python's truth value.\<close>

fun truthy :: "json \<Rightarrow> bool" where
  "truthy JNull = False"
| "truthy (JBool b) = b"
| "truthy (JInt i) = (i \<noteq> 0)"
| "truthy (JStr s) = (s \<noteq> [])"
| "truthy (JArr xs) = (xs \<noteq> [])"
| "truthy (JObj kvs) = (kvs \<noteq> [])"

text \<open>\<^verbatim>\<open>obj.get(k, dflt)\<close>: only a dict has \<^verbatim>\<open>get\<close>; anything else raises
  \<^verbatim>\<open>AttributeError\<close>. \<^verbatim>\<open>obj.get(k)\<close> is \<open>py_get obj k JNull\<close>.\<close>

fun py_get :: "json \<Rightarrow> string \<Rightarrow> json \<Rightarrow> exn + json" where
  "py_get (JObj kvs) k dflt = Inr (case map_of kvs k of None \<Rightarrow> dflt | Some v \<Rightarrow> v)"
| "py_get _ k dflt = Inl AttributeError"

text \<open>\<^verbatim>\<open>for x in v\<close>: a list yields its elements, a string its characters, a dict its
  keys; \<^verbatim>\<open>None\<close>, booleans and integers are not iterable.\<close>

fun py_iter :: "json \<Rightarrow> exn + json list" where
  "py_iter (JArr xs) = Inr xs"
| "py_iter (JStr s) = Inr (map (\<lambda>c. JStr [c]) s)"
| "py_iter (JObj kvs) = Inr (map (\<lambda>kv. JStr (fst kv)) kvs)"
| "py_iter _ = Inl TypeError"

text \<open>
  Dict keys are compared by hash and \<^verbatim>\<open>==\<close>: \<^verbatim>\<open>True\<close> and \<^verbatim>\<open>1\<close> (and \<^verbatim>\<open>False\<close> and
  \<^verbatim>\<open>0\<close>) are the same key; lists and dicts are unhashable and raise \<^verbatim>\<open>TypeError\<close>.
\<close>

datatype pykey = KNone | KInt int | KStr string

fun py_hash :: "json \<Rightarrow> exn + pykey" where
  "py_hash JNull = Inr KNone"
| "py_hash (JBool b) = Inr (KInt (if b then 1 else 0))"
| "py_hash (JInt i) = Inr (KInt i)"
| "py_hash (JStr s) = Inr (KStr s)"
| "py_hash (JArr xs) = Inl TypeError"
| "py_hash (JObj kvs) = Inl TypeError"

text \<open>Two values are the same dict key: both hashable, and equal under \<^verbatim>\<open>==\<close>.\<close>

definition same_key :: "json \<Rightarrow> json \<Rightarrow> bool" where
  "same_key a b =
     (case py_hash a of
        Inl e \<Rightarrow> False
      | Inr k \<Rightarrow> (case py_hash b of Inl e \<Rightarrow> False | Inr k' \<Rightarrow> k = k'))"

text \<open>Sequencing of computations that may raise.\<close>

definition bind :: "exn + 'a \<Rightarrow> ('a \<Rightarrow> exn + 'b) \<Rightarrow> exn + 'b" where
  "bind m f = (case m of Inl e \<Rightarrow> Inl e | Inr x \<Rightarrow> f x)"

text \<open>The list comprehension \<^verbatim>\<open>[x.get(k) for x in xs]\<close>.\<close>

fun get_each :: "string \<Rightarrow> json list \<Rightarrow> exn + json list" where
  "get_each k [] = Inr []"
| "get_each k (x # xs) =
     bind (py_get x k JNull) (\<lambda>v. bind (get_each k xs) (\<lambda>vs. Inr (v # vs)))"

section \<open>Aggregator: \<^verbatim>\<open>get_top_albums\<close>\<close>

text \<open>The value stored in \<^verbatim>\<open>album_stats\<close> under an album id.\<close>

record album_stats =
  name :: json
  artists :: "json list"
  images :: json
  release_date :: json
  total_tracks :: json
  external_url :: json
  count :: nat
  tracks :: "(json \<times> json) list"

text \<open>An element of the returned list: \<^verbatim>\<open>{**stats, 'id': album_id}\<close>.\<close>

record top_album = album_stats +
  id :: json

text \<open>
  \<^verbatim>\<open>album_stats\<close> is an insertion-ordered dict. An entry is the hash key, the key
  object first inserted (a later assignment under an equal key keeps it) and
  the stats.
\<close>

type_synonym album_dict = "(pykey \<times> json \<times> album_stats) list"

text \<open>The dict literal built when an album id is seen for the first time.\<close>

definition new_album_stats :: "json \<Rightarrow> exn + album_stats" where
  "new_album_stats album =
     bind (py_get album ''name'' JNull) (\<lambda>nm.
     bind (py_get album ''artists'' (JArr [])) (\<lambda>arts.
     bind (py_iter arts) (\<lambda>art_list.
     bind (get_each ''name'' art_list) (\<lambda>art_names.
     bind (py_get album ''images'' (JArr [])) (\<lambda>imgs.
     bind (py_get album ''release_date'' JNull) (\<lambda>rd.
     bind (py_get album ''total_tracks'' JNull) (\<lambda>tt.
     bind (py_get album ''external_urls'' (JObj [])) (\<lambda>urls.
     bind (py_get urls ''spotify'' JNull) (\<lambda>url.
     Inr \<lparr>name = nm, artists = art_names, images = imgs, release_date = rd,
          total_tracks = tt, external_url = url, count = 0, tracks = []\<rparr>)))))))))"

text \<open>\<^verbatim>\<open>album_stats[album_id]['count'] += 1\<close> and the \<^verbatim>\<open>append\<close> to its tracks.\<close>

definition add_track :: "json \<times> json \<Rightarrow> json \<times> album_stats \<Rightarrow> json \<times> album_stats" where
  "add_track t e = (fst e, (snd e)\<lparr>count := count (snd e) + 1, tracks := tracks (snd e) @ [t]\<rparr>)"

text \<open>One iteration of the loop over the tracks (source lines 166 to 189).\<close>

definition album_step :: "json \<Rightarrow> album_dict \<Rightarrow> exn + album_dict" where
  "album_step track st =
     bind (py_get track ''album'' (JObj [])) (\<lambda>album.
     bind (py_get album ''id'' JNull) (\<lambda>album_id.
     if \<not> truthy album_id then Inr st
     else
       bind (py_hash album_id) (\<lambda>k.
       bind (if map_of st k = None
             then bind (new_album_stats album) (\<lambda>s. Inr (st @ [(k, album_id, s)]))
             else Inr st) (\<lambda>st1.
       bind (py_get track ''name'' JNull) (\<lambda>tn.
       bind (py_get track ''popularity'' JNull) (\<lambda>tp.
       Inr (AList.map_entry k (add_track (tn, tp)) st1)))))))"

fun album_loop :: "json list \<Rightarrow> album_dict \<Rightarrow> exn + album_dict" where
  "album_loop [] st = Inr st"
| "album_loop (track # rest) st = bind (album_step track st) (album_loop rest)"

text \<open>\<^verbatim>\<open>list.sort(key=..., reverse=True)\<close> is stable: elements with equal keys keep
  their order. The key is an integer, so this is the stable ascending sort on
  the negated key.\<close>

definition sort_desc :: "('a \<Rightarrow> nat) \<Rightarrow> 'a list \<Rightarrow> 'a list" where
  "sort_desc key xs = sort_key (\<lambda>x. - int (key x)) xs"

definition to_top_album :: "pykey \<times> json \<times> album_stats \<Rightarrow> top_album" where
  "to_top_album e = album_stats.extend (snd (snd e)) \<lparr>id = fst (snd e)\<rparr>"

definition get_top_albums :: "json \<Rightarrow> exn + top_album list" where
  "get_top_albums tracks_data =
     bind (py_get tracks_data ''items'' (JArr [])) (\<lambda>items.
     bind (py_iter items) (\<lambda>track_list.
     bind (album_loop track_list []) (\<lambda>album_stats.
     Inr (take 10 (sort_desc count (map to_top_album album_stats))))))"


section \<open>Aggregator: \<^verbatim>\<open>get_top_genres\<close>\<close>

text \<open>\<^verbatim>\<open>genre_count\<close> is an insertion-ordered dict from genre to count; an entry
  is the hash key, the key object first inserted and the count.\<close>

type_synonym genre_dict = "(pykey \<times> json \<times> nat) list"

text \<open>\<^verbatim>\<open>genre_count[genre] = genre_count.get(genre, 0) + 1\<close>: an existing key keeps
  its place and its key object, a new key is appended.\<close>

definition genre_step :: "json \<Rightarrow> genre_dict \<Rightarrow> exn + genre_dict" where
  "genre_step genre genre_count =
     bind (py_hash genre) (\<lambda>k.
     Inr (AList.update k
            (case map_of genre_count k of
               None \<Rightarrow> (genre, 0 + 1)
             | Some e \<Rightarrow> (fst e, snd e + 1))
            genre_count))"

fun genre_loop :: "json list \<Rightarrow> genre_dict \<Rightarrow> exn + genre_dict" where
  "genre_loop [] gc = Inr gc"
| "genre_loop (genre # rest) gc = bind (genre_step genre gc) (genre_loop rest)"

fun artist_loop :: "json list \<Rightarrow> genre_dict \<Rightarrow> exn + genre_dict" where
  "artist_loop [] gc = Inr gc"
| "artist_loop (artist # rest) gc =
     bind (py_get artist ''genres'' (JArr [])) (\<lambda>gs.
     bind (py_iter gs) (\<lambda>genres.
     bind (genre_loop genres gc) (artist_loop rest)))"

text \<open>The result is \<^verbatim>\<open>dict(sorted_genres[:10])\<close>: an insertion-ordered dict, given as
  its list of items (key object, count).\<close>

definition get_top_genres :: "json \<Rightarrow> exn + (json \<times> nat) list" where
  "get_top_genres artists_data =
     bind (py_get artists_data ''items'' (JArr [])) (\<lambda>items.
     bind (py_iter items) (\<lambda>artist_list.
     bind (artist_loop artist_list []) (\<lambda>genre_count.
     Inr (take 10 (sort_desc snd (map snd genre_count))))))"

section \<open>Upstream calls, replies and exception handling\<close>

text \<open>
  A call of \<^verbatim>\<open>requests.get\<close> or \<^verbatim>\<open>requests.post\<close> either raises or returns a response.
  The upstream service is a function from the request sent to that outcome.
  \<^verbatim>\<open>print\<close> calls are not modelled.
\<close>

record response =
  status_code :: int
  body_text :: string
  json_body :: "json option"

record http_request =
  http_method :: string
  url :: string
  headers :: "(string \<times> string) list"
  form_data :: "(string \<times> json) list"
  auth :: "(string option \<times> string option) option"

type_synonym upstream = "http_request \<Rightarrow> exn + response"

text \<open>The module-level configuration read with \<^verbatim>\<open>os.getenv\<close>: a value is \<^verbatim>\<open>None\<close>
  when the variable is unset.\<close>

record config =
  SPOTIFY_CLIENT_ID :: "string option"
  SPOTIFY_CLIENT_SECRET :: "string option"
  SPOTIFY_REDIRECT_URI :: "string option"

text \<open>A configuration value inside an f-string.\<close>

definition fmt :: "string option \<Rightarrow> string" where
  "fmt v = (case v of None \<Rightarrow> ''None'' | Some s \<Rightarrow> s)"

text \<open>\<^verbatim>\<open>response.ok\<close> and \<^verbatim>\<open>response.raise_for_status()\<close> of the requests library: a
  status from 400 to 599 is an error, raised as an \<^verbatim>\<open>HTTPError\<close>, which is a
  \<^verbatim>\<open>RequestException\<close>.\<close>

definition response_ok :: "response \<Rightarrow> bool" where
  "response_ok r = (\<not> (400 \<le> status_code r \<and> status_code r < 600))"

definition raise_for_status :: "response \<Rightarrow> exn + unit" where
  "raise_for_status r =
     (if 400 \<le> status_code r \<and> status_code r < 600
      then Inl (RequestException ''HTTPError'') else Inr ())"

text \<open>\<^verbatim>\<open>response.json()\<close>: a body that is not JSON raises the library's
  \<^verbatim>\<open>JSONDecodeError\<close>, a \<^verbatim>\<open>RequestException\<close>.\<close>

definition response_json :: "response \<Rightarrow> exn + json" where
  "response_json r =
     (case json_body r of None \<Rightarrow> Inl (RequestException ''JSONDecodeError'') | Some j \<Rightarrow> Inr j)"

text \<open>What a handler hands back to the framework.\<close>

text \<open>\<open>Redirect u\<close> is a redirect whose \<^verbatim>\<open>Location\<close> header is \<open>u\<close>.\<close>

datatype 'c http_reply =
    JSONResponse 'c "(string \<times> string) list"
  | ReturnValue 'c
  | Redirect string

text \<open>
  The framework's \<^verbatim>\<open>RedirectResponse(url=...)\<close>, which is not in \<^verbatim>\<open>main.py\<close>, does not
  send the URL as it is given: it sets the \<^verbatim>\<open>Location\<close> header to
  \<^verbatim>\<open>quote(url, safe=":/%#?=@[]!$&'()*+,;")\<close>. \<^verbatim>\<open>quote\<close> keeps the letters, the digits,
  the characters \<^verbatim>\<open>_.-~\<close> and the characters of \<^verbatim>\<open>safe\<close>; every other character is
  replaced by its UTF-8 bytes, each written as \<^verbatim>\<open>%\<close> and two upper-case hexadecimal
  digits.
\<close>

definition hex_digit :: "nat \<Rightarrow> char" where
  "hex_digit n = ''0123456789ABCDEF'' ! (n mod 16)"

definition percent_byte :: "nat \<Rightarrow> string" where
  "percent_byte b = [CHR ''%'', hex_digit (b div 16), hex_digit (b mod 16)]"

definition utf8_bytes :: "char \<Rightarrow> nat list" where
  "utf8_bytes c =
     (if (of_char c :: nat) < 128 then [of_char c]
      else [192 + of_char c div 64, 128 + of_char c mod 64])"

definition quote_safe :: "char \<Rightarrow> bool" where
  "quote_safe c =
     (c \<in> set ''ABCDEFGHIJKLMNOPQRSTUVWXYZabcdefghijklmnopqrstuvwxyz0123456789_.-~''
      \<or> c \<in> set '':/%#?=@[]!$&()*+,;'' \<or> c = CHR 0x27)"

definition url_quote :: "string \<Rightarrow> string" where
  "url_quote s =
     concat (map (\<lambda>c. if quote_safe c then [c] else concat (map percent_byte (utf8_bytes c))) s)"

definition RedirectResponse :: "string \<Rightarrow> 'c http_reply" where
  "RedirectResponse u = Redirect (url_quote u)"

text \<open>
  The status the framework answers with: an \<^verbatim>\<open>HTTPException\<close> that leaves the
  handler gives its own status code, any other exception that leaves the
  handler gives 500, a returned value or \<^verbatim>\<open>JSONResponse\<close> gives 200 and a
  \<^verbatim>\<open>RedirectResponse\<close> its default 307.
\<close>

fun status_of :: "exn + 'c http_reply \<Rightarrow> int" where
  "status_of (Inl (HTTPException code detail)) = code"
| "status_of (Inl e) = 500"
| "status_of (Inr (Redirect u)) = 307"
| "status_of (Inr r) = 200"

text \<open>
  \<^verbatim>\<open>except Exception as e: raise HTTPException(status_code=500, detail=str(e))\<close>.
  \<^verbatim>\<open>HTTPException\<close> is itself a subclass of \<^verbatim>\<open>Exception\<close>, so this clause catches every
  exception of the model. Python's \<^verbatim>\<open>str\<close> of an exception is the parameter
  \<open>str_e\<close>.
\<close>

definition except_Exception :: "(exn \<Rightarrow> string) \<Rightarrow> exn + 'a \<Rightarrow> exn + 'a" where
  "except_Exception str_e m =
     (case m of Inl e \<Rightarrow> Inl (HTTPException 500 (str_e e)) | Inr x \<Rightarrow> Inr x)"

text \<open>
  \<^verbatim>\<open>except requests.exceptions.RequestException as e:
     raise HTTPException(status_code=500, detail=detail_prefix + str(e))\<close>:
  only the exceptions of the requests library are caught.
\<close>

fun except_RequestException :: "(exn \<Rightarrow> string) \<Rightarrow> string \<Rightarrow> exn + 'a \<Rightarrow> exn + 'a" where
  "except_RequestException str_e detail_prefix (Inl (RequestException m)) =
     Inl (HTTPException 500 (detail_prefix @ str_e (RequestException m)))"
| "except_RequestException str_e detail_prefix r = r"

definition cors_headers :: "(string \<times> string) list" where
  "cors_headers =
     [(''Access-Control-Allow-Origin'', ''https://spotify-twitter-recap.vercel.app/''),
      (''Access-Control-Allow-Credentials'', ''true'')]"

definition cors_headers_playing :: "(string \<times> string) list" where
  "cors_headers_playing =
     [(''Access-Control-Allow-Origin'', ''https://spotify-twitter-recap.vercel.app/''),
      (''Access-Control-Allow-Credentials'', ''true''),
      (''Access-Control-Allow-Methods'', ''GET, POST, OPTIONS''),
      (''Access-Control-Allow-Headers'', ''Content-Type, Authorization, Origin'')]"

section \<open>\<^verbatim>\<open>POST /refresh-token\<close>\<close>

text \<open>\<^verbatim>\<open>s.encode('ascii')\<close>: every code point must be below 128.\<close>

definition encode_ascii :: "string \<Rightarrow> exn + string" where
  "encode_ascii s =
     (if list_all (\<lambda>c. (of_char c :: nat) < 128) s then Inr s else Inl UnicodeEncodeError)"

text \<open>\<^verbatim>\<open>base64.b64encode\<close>: the standard alphabet, three bytes to four characters,
  padded with \<^verbatim>\<open>=\<close>.\<close>

definition b64_alphabet :: string where
  "b64_alphabet = ''ABCDEFGHIJKLMNOPQRSTUVWXYZabcdefghijklmnopqrstuvwxyz0123456789+/''"

definition b64_char :: "nat \<Rightarrow> char" where
  "b64_char n = b64_alphabet ! (n mod 64)"

fun b64_groups :: "nat list \<Rightarrow> string" where
  "b64_groups (a # b # c # rest) =
     [b64_char (a div 4), b64_char ((a mod 4) * 16 + b div 16),
      b64_char ((b mod 16) * 4 + c div 64), b64_char (c mod 64)] @ b64_groups rest"
| "b64_groups [a, b] =
     [b64_char (a div 4), b64_char ((a mod 4) * 16 + b div 16),
      b64_char ((b mod 16) * 4), CHR ''='']"
| "b64_groups [a] = [b64_char (a div 4), b64_char ((a mod 4) * 16), CHR ''='', CHR ''='']"
| "b64_groups [] = []"

definition b64encode :: "string \<Rightarrow> string" where
  "b64encode bytes = b64_groups (map of_char bytes)"

text \<open>Source lines 40 to 42: \<^verbatim>\<open>auth_string\<close>, \<^verbatim>\<open>auth_bytes\<close>, \<^verbatim>\<open>auth_header\<close>.\<close>

definition refresh_auth_header :: "config \<Rightarrow> exn + string" where
  "refresh_auth_header cfg =
     (let auth_string = fmt (SPOTIFY_CLIENT_ID cfg) @ '':'' @ fmt (SPOTIFY_CLIENT_SECRET cfg)
      in bind (encode_ascii auth_string) (\<lambda>auth_bytes. Inr (b64encode auth_bytes)))"

text \<open>The value sent under \<^verbatim>\<open>Authorization\<close> by the refresh operation.\<close>

definition refresh_authorization :: "config \<Rightarrow> exn + string" where
  "refresh_authorization cfg =
     bind (refresh_auth_header cfg) (\<lambda>auth_header. Inr (''Basic '' @ auth_header))"

definition refresh_request :: "string \<Rightarrow> json \<Rightarrow> http_request" where
  "refresh_request authorization refresh_token =
     \<lparr>http_method = ''POST'',
      url = ''https://accounts.spotify.com/api/token'',
      headers = [(''Authorization'', authorization),
                 (''Content-Type'', ''application/x-www-form-urlencoded'')],
      form_data = [(''grant_type'', JStr ''refresh_token''), (''refresh_token'', refresh_token)],
      auth = None\<rparr>"

text \<open>The body of the \<^verbatim>\<open>try\<close> (source lines 33 to 76). The request body is \<open>None\<close>
  when it is not JSON: \<^verbatim>\<open>request.json()\<close> then raises a \<^verbatim>\<open>ValueError\<close>.\<close>

definition refresh_token_try :: "config \<Rightarrow> upstream \<Rightarrow> json option \<Rightarrow> exn + json http_reply" where
  "refresh_token_try cfg upstream request_json =
     bind (case request_json of None \<Rightarrow> Inl ValueError | Some d \<Rightarrow> Inr d) (\<lambda>data.
     bind (py_get data ''refresh_token'' JNull) (\<lambda>refresh_token.
     if \<not> truthy refresh_token
     then Inl (HTTPException 400 ''Refresh token is required'')
     else
       bind (refresh_authorization cfg) (\<lambda>authorization.
       bind (upstream (refresh_request authorization refresh_token)) (\<lambda>response.
       if \<not> response_ok response
       then Inl (HTTPException (status_code response)
                   (''Failed to refresh token: '' @ body_text response))
       else
         bind (response_json response) (\<lambda>token_data.
         Inr (JSONResponse token_data cors_headers))))))"

definition refresh_token ::
  "(exn \<Rightarrow> string) \<Rightarrow> config \<Rightarrow> upstream \<Rightarrow> json option \<Rightarrow> exn + json http_reply" where
  "refresh_token str_e cfg upstream request_json =
     except_Exception str_e (refresh_token_try cfg upstream request_json)"

section \<open>\<^verbatim>\<open>GET /recently-played\<close> and \<^verbatim>\<open>GET /currently-playing\<close>\<close>

definition get_request :: "string \<Rightarrow> string \<Rightarrow> http_request" where
  "get_request u bearer =
     \<lparr>http_method = ''GET'', url = u,
      headers = [(''Authorization'', ''Bearer '' @ bearer)],
      form_data = [], auth = None\<rparr>"

definition recently_played_url :: string where
  "recently_played_url = ''https://api.spotify.com/v1/me/player/recently-played''"

definition currently_playing_url :: string where
  "currently_playing_url = ''https://api.spotify.com/v1/me/player/currently-playing''"

definition get_recently_played ::
  "(exn \<Rightarrow> string) \<Rightarrow> upstream \<Rightarrow> string \<Rightarrow> exn + json http_reply" where
  "get_recently_played str_e upstream access_token =
     except_RequestException str_e []
       (bind (upstream (get_request recently_played_url access_token)) (\<lambda>response.
        if status_code response = 401
        then Inl (HTTPException 401 ''Token expired'')
        else
          bind (raise_for_status response) (\<lambda>u.
          bind (response_json response) (\<lambda>j.
          Inr (ReturnValue j)))))"

text \<open>The dict literal \<^verbatim>\<open>track_data\<close> (source lines 129 to 142), its entries evaluated
  in the order written.\<close>

definition track_data :: "json \<Rightarrow> exn + json" where
  "track_data data =
     bind (py_get data ''is_playing'' (JBool False)) (\<lambda>is_playing.
     bind (py_get data ''item'' (JObj [])) (\<lambda>item1.
     bind (py_get item1 ''name'' JNull) (\<lambda>track_name.
     bind (py_get data ''item'' (JObj [])) (\<lambda>item2.
     bind (py_get item2 ''artists'' (JArr [])) (\<lambda>arts.
     bind (py_iter arts) (\<lambda>art_list.
     bind (get_each ''name'' art_list) (\<lambda>art_names.
     bind (py_get data ''item'' (JObj [])) (\<lambda>item3.
     bind (py_get item3 ''album'' (JObj [])) (\<lambda>album1.
     bind (py_get album1 ''name'' JNull) (\<lambda>album_name.
     bind (py_get data ''item'' (JObj [])) (\<lambda>item4.
     bind (py_get item4 ''album'' (JObj [])) (\<lambda>album2.
     bind (py_get album2 ''images'' (JArr [])) (\<lambda>album_images.
     bind (py_get data ''item'' (JObj [])) (\<lambda>item5.
     bind (py_get item5 ''duration_ms'' JNull) (\<lambda>duration_ms.
     bind (py_get data ''progress_ms'' JNull) (\<lambda>progress_ms.
     bind (py_get data ''item'' (JObj [])) (\<lambda>item6.
     bind (py_get item6 ''external_urls'' (JObj [])) (\<lambda>urls.
     bind (py_get urls ''spotify'' JNull) (\<lambda>external_url.
     Inr (JObj
       [(''is_playing'', is_playing),
        (''track'', JObj
          [(''name'', track_name),
           (''artists'', JArr art_names),
           (''album'', JObj [(''name'', album_name), (''images'', album_images)]),
           (''duration_ms'', duration_ms),
           (''progress_ms'', progress_ms),
           (''external_url'', external_url)])]))))))))))))))))))))"

definition get_currently_playing ::
  "(exn \<Rightarrow> string) \<Rightarrow> upstream \<Rightarrow> string \<Rightarrow> exn + json http_reply" where
  "get_currently_playing str_e upstream access_token =
     except_RequestException str_e []
       (bind (upstream (get_request currently_playing_url access_token)) (\<lambda>response.
        if status_code response = 204
        then Inr (JSONResponse (JObj [(''is_playing'', JBool False), (''track'', JNull)])
                    cors_headers_playing)
        else if status_code response = 401
        then Inl (HTTPException 401 ''Token expired'')
        else
          bind (raise_for_status response) (\<lambda>u.
          bind (response_json response) (\<lambda>data.
          bind (track_data data) (\<lambda>content.
          Inr (JSONResponse content cors_headers_playing))))))"

section \<open>\<^verbatim>\<open>GET /callback\<close>\<close>


text \<open>\<^verbatim>\<open>requests.get(u, headers=headers).json()\<close>: the status is not looked at.\<close>

definition get_json :: "upstream \<Rightarrow> string \<Rightarrow> string \<Rightarrow> exn + json" where
  "get_json upstream bearer u = bind (upstream (get_request u bearer)) response_json"

record user_lists =
  user_profile :: json
  short_term_artists :: json
  medium_term_artists :: json
  medium_term_artists_long :: json
  long_term_artists :: json
  short_term_tracks :: json
  medium_term_tracks :: json
  long_term_tracks :: json

text \<open>Source lines 228 to 272: the eight fetches, one after the other.\<close>

definition fetch_lists :: "upstream \<Rightarrow> string \<Rightarrow> exn + user_lists" where
  "fetch_lists upstream bearer =
     bind (get_json upstream bearer ''https://api.spotify.com/v1/me'') (\<lambda>up.
     bind (get_json upstream bearer
       ''https://api.spotify.com/v1/me/top/artists?time_range=short_term&limit=10'') (\<lambda>sa.
     bind (get_json upstream bearer
       ''https://api.spotify.com/v1/me/top/artists?time_range=medium_term&limit=10'') (\<lambda>ma.
     bind (get_json upstream bearer
       ''https://api.spotify.com/v1/me/top/artists?time_range=medium_term&limit=50'') (\<lambda>mal.
     bind (get_json upstream bearer
       ''https://api.spotify.com/v1/me/top/artists?time_range=long_term&limit=10'') (\<lambda>la.
     bind (get_json upstream bearer
       ''https://api.spotify.com/v1/me/top/tracks?time_range=short_term&limit=10'') (\<lambda>st.
     bind (get_json upstream bearer
       ''https://api.spotify.com/v1/me/top/tracks?time_range=medium_term&limit=10'') (\<lambda>mt.
     bind (get_json upstream bearer
       ''https://api.spotify.com/v1/me/top/tracks?time_range=long_term&limit=10'') (\<lambda>lt.
     Inr \<lparr>user_profile = up, short_term_artists = sa, medium_term_artists = ma,
          medium_term_artists_long = mal, long_term_artists = la,
          short_term_tracks = st, medium_term_tracks = mt, long_term_tracks = lt\<rparr>))))))))"

text \<open>A value of the \<^verbatim>\<open>user_data\<close> dict: upstream JSON, the three lists of top albums
  or the three dicts of top genres.\<close>

datatype payload_value =
    Raw json
  | TopAlbums "(string \<times> top_album list) list"
  | TopGenres "(string \<times> (json \<times> nat) list) list"

text \<open>Source lines 275 to 296: the aggregates, albums first.\<close>

definition aggregate_lists :: "user_lists \<Rightarrow> exn + payload_value \<times> payload_value" where
  "aggregate_lists l =
     bind (get_top_albums (short_term_tracks l)) (\<lambda>as.
     bind (get_top_albums (medium_term_tracks l)) (\<lambda>am.
     bind (get_top_albums (long_term_tracks l)) (\<lambda>al.
     bind (get_top_genres (short_term_artists l)) (\<lambda>gs.
     bind (get_top_genres (medium_term_artists l)) (\<lambda>gm.
     bind (get_top_genres (long_term_artists l)) (\<lambda>gl.
     Inr (TopAlbums [(''short_term'', as), (''medium_term'', am), (''long_term'', al)],
          TopGenres [(''short_term'', gs), (''medium_term'', gm), (''long_term'', gl)])))))))"






section \<open>\<^verbatim>\<open>GET /login\<close>\<close>

definition auth_url :: "config \<Rightarrow> string" where
  "auth_url cfg =
     ''https://accounts.spotify.com/authorize''
     @ ''?response_type=code''
     @ ''&client_id='' @ fmt (SPOTIFY_CLIENT_ID cfg)
     @ ''&redirect_uri='' @ fmt (SPOTIFY_REDIRECT_URI cfg)
     @ ''&scope=user-read-recently-played user-read-private user-read-email user-top-read user-read-currently-playing''"

text \<open>The body of the \<^verbatim>\<open>try\<close>: nothing in it raises. The redirect is built by the
  framework's \<^verbatim>\<open>RedirectResponse\<close>, which quotes the URL.\<close>

definition login_try :: "config \<Rightarrow> exn + json http_reply" where
  "login_try cfg = Inr (RedirectResponse (auth_url cfg))"

definition login :: "config \<Rightarrow> exn + json http_reply" where
  "login cfg =
     (case login_try cfg of
        Inl e \<Rightarrow> Inl (HTTPException 500 ''Error redirecting to Spotify.'')
      | Inr r \<Rightarrow> Inr r)"

section \<open>Notions of the specification\<close>

subsection \<open>Track lists and album ids\<close>

text \<open>The list that \<^verbatim>\<open>get_top_albums\<close> and \<^verbatim>\<open>get_top_genres\<close> loop over: the items of
  the listing (empty where the loop cannot start).\<close>

definition input_items :: "json \<Rightarrow> json list" where
  "input_items listing =
     (case bind (py_get listing ''items'' (JArr [])) py_iter of
        Inl e \<Rightarrow> []
      | Inr xs \<Rightarrow> xs)"

text \<open>The album id of a track, \<^verbatim>\<open>None\<close> where it is absent.\<close>

definition track_album_id :: "json \<Rightarrow> json" where
  "track_album_id t =
     (case py_get t ''album'' (JObj []) of
        Inl e \<Rightarrow> JNull
      | Inr a \<Rightarrow> (case py_get a ''id'' JNull of Inl e \<Rightarrow> JNull | Inr i \<Rightarrow> i))"

text \<open>The distinct album ids present in a track list.\<close>

definition distinct_album_ids :: "json list \<Rightarrow> json list" where
  "distinct_album_ids ts = remdups (filter (\<lambda>i. i \<noteq> JNull) (map track_album_id ts))"

text \<open>The tracks of a list whose album id equals \<open>i\<close> (as a dict key).\<close>

definition tracks_of_album :: "json list \<Rightarrow> json \<Rightarrow> json list" where
  "tracks_of_album ts i = filter (\<lambda>t. same_key (track_album_id t) i) ts"

text \<open>The hash key under which a track is counted, \<open>None\<close> for a track that the
  loop skips.\<close>

definition track_key :: "json \<Rightarrow> pykey option" where
  "track_key t =
     (if truthy (track_album_id t)
      then (case py_hash (track_album_id t) of Inl e \<Rightarrow> None | Inr k \<Rightarrow> Some k)
      else None)"

definition cnt :: "album_dict \<Rightarrow> pykey \<Rightarrow> nat" where
  "cnt st k = (case map_of st k of None \<Rightarrow> 0 | Some e \<Rightarrow> count (snd e))"

definition total :: "album_dict \<Rightarrow> nat" where
  "total st = sum_list (map (\<lambda>e. count (snd (snd e))) st)"

text \<open>The invariant of \<^verbatim>\<open>album_stats\<close>: distinct keys, each the hash of its key
  object.\<close>

definition good :: "album_dict \<Rightarrow> bool" where
  "good st = (distinct (map fst st) \<and> (\<forall>e \<in> set st. py_hash (fst (snd e)) = Inr (fst e)))"

definition ex_tracks :: json where
  "ex_tracks = JObj [(''items'', JArr [
      JObj [(''album'', JObj [(''id'', JStr ''A1'')]), (''name'', JStr ''t1'')],
      JObj [(''album'', JObj [(''id'', JStr ''A1'')]), (''name'', JStr ''t2'')],
      JObj [(''album'', JObj [(''id'', JStr ''A2'')]), (''name'', JStr ''t3'')]])]"

definition ex_top_albums :: "top_album list" where
  "ex_top_albums =
     [\<lparr>name = JNull, artists = [], images = JArr [], release_date = JNull,
       total_tracks = JNull, external_url = JNull, count = 2,
       tracks = [(JStr ''t1'', JNull), (JStr ''t2'', JNull)], id = JStr ''A1''\<rparr>,
      \<lparr>name = JNull, artists = [], images = JArr [], release_date = JNull,
       total_tracks = JNull, external_url = JNull, count = 1,
       tracks = [(JStr ''t3'', JNull)], id = JStr ''A2''\<rparr>]"

definition ex_no_album_id :: json where
  "ex_no_album_id =
     JObj [(''items'', JArr [JObj [(''album'', JObj []), (''name'', JStr ''t1'')]])]"

subsection \<open>Genre tags and their counts\<close>

text \<open>The genre tags of one artist, and of every artist of a listing in order.\<close>

definition artist_tags :: "json \<Rightarrow> json list" where
  "artist_tags artist =
     (case bind (py_get artist ''genres'' (JArr [])) py_iter of
        Inl e \<Rightarrow> []
      | Inr gs \<Rightarrow> gs)"

definition genre_tags :: "json \<Rightarrow> json list" where
  "genre_tags artists_data = concat (map artist_tags (input_items artists_data))"

text \<open>The number of occurrences of a genre among the tags.\<close>

definition occurrences :: "json list \<Rightarrow> json \<Rightarrow> nat" where
  "occurrences tags g = length (filter (\<lambda>t. same_key t g) tags)"

text \<open>The genres in the order in which they are first seen.\<close>

fun first_seen :: "json list \<Rightarrow> json list" where
  "first_seen [] = []"
| "first_seen (x # xs) = x # filter (\<lambda>y. \<not> same_key y x) (first_seen xs)"

text \<open>The genre-count mapping, in first-seen order.\<close>

definition genre_counts :: "json list \<Rightarrow> (json \<times> nat) list" where
  "genre_counts tags = map (\<lambda>g. (g, occurrences tags g)) (first_seen tags)"

definition hashable :: "json \<Rightarrow> bool" where
  "hashable x = (case py_hash x of Inl e \<Rightarrow> False | Inr k \<Rightarrow> True)"

definition key_of :: "json \<Rightarrow> pykey" where
  "key_of x = (case py_hash x of Inl e \<Rightarrow> KNone | Inr k \<Rightarrow> k)"

text \<open>The dict \<^verbatim>\<open>genre_count\<close> after the tags have been counted.\<close>

definition gc_of :: "json list \<Rightarrow> genre_dict" where
  "gc_of tags = map (\<lambda>g. (key_of g, g, occurrences tags g)) (first_seen tags)"

text \<open>Fifteen artists tagged \<^verbatim>\<open>["pop"]\<close>, then three tagged \<^verbatim>\<open>["rock"]\<close>.\<close>

definition ex_artists :: json where
  "ex_artists = JObj [(''items'', JArr
     (replicate 15 (JObj [(''genres'', JArr [JStr ''pop''])])
      @ replicate 3 (JObj [(''genres'', JArr [JStr ''rock''])])))]"

subsection \<open>Fields of the currently-playing payload\<close>

text \<open>\<^verbatim>\<open>d.get(k)\<close> and \<^verbatim>\<open>d.get(k, dflt)\<close> on the items of a dict.\<close>

definition field :: "(string \<times> json) list \<Rightarrow> string \<Rightarrow> json" where
  "field kvs k = (case map_of kvs k of None \<Rightarrow> JNull | Some v \<Rightarrow> v)"

definition field_or :: "(string \<times> json) list \<Rightarrow> string \<Rightarrow> json \<Rightarrow> json" where
  "field_or kvs k dflt = (case map_of kvs k of None \<Rightarrow> dflt | Some v \<Rightarrow> v)"

text \<open>The key is missing, or its value is an object.\<close>

definition absent_or_dict :: "(string \<times> json) list \<Rightarrow> string \<Rightarrow> bool" where
  "absent_or_dict kvs k =
     (case map_of kvs k of None \<Rightarrow> True | Some (JObj x) \<Rightarrow> True | Some v \<Rightarrow> False)"

text \<open>The items of the object under a key, none where the key is missing.\<close>

definition sub_dict :: "(string \<times> json) list \<Rightarrow> string \<Rightarrow> (string \<times> json) list" where
  "sub_dict kvs k = (case map_of kvs k of Some (JObj x) \<Rightarrow> x | v \<Rightarrow> [])"

text \<open>The key is missing, or its value is a list of objects.\<close>

definition absent_or_dicts :: "(string \<times> json) list \<Rightarrow> string \<Rightarrow> bool" where
  "absent_or_dicts kvs k =
     (case map_of kvs k of
        None \<Rightarrow> True
      | Some (JArr xs) \<Rightarrow> list_all (\<lambda>x. case x of JObj kv \<Rightarrow> True | v \<Rightarrow> False) xs
      | Some v \<Rightarrow> False)"

definition sub_dicts :: "(string \<times> json) list \<Rightarrow> string \<Rightarrow> (string \<times> json) list list" where
  "sub_dicts kvs k =
     (case map_of kvs k of
        Some (JArr xs) \<Rightarrow> map (\<lambda>x. case x of JObj kv \<Rightarrow> kv | v \<Rightarrow> []) xs
      | v \<Rightarrow> [])"

text \<open>The shaped payload, field by field: a missing key gives \<^verbatim>\<open>null\<close>, but the empty
  list for the artists and for the album's images.\<close>

definition track_view :: "(string \<times> json) list \<Rightarrow> json" where
  "track_view data =
     (let item = sub_dict data ''item''; album = sub_dict item ''album'' in
      JObj [(''is_playing'', field_or data ''is_playing'' (JBool False)),
            (''track'', JObj
               [(''name'', field item ''name''),
                (''artists'', JArr (map (\<lambda>a. field a ''name'') (sub_dicts item ''artists''))),
                (''album'', JObj [(''name'', field album ''name''),
                                  (''images'', field_or album ''images'' (JArr []))]),
                (''duration_ms'', field item ''duration_ms''),
                (''progress_ms'', field data ''progress_ms''),
                (''external_url'', field (sub_dict item ''external_urls'') ''spotify'')])])"

text \<open>Every sub-field of the \<^verbatim>\<open>track\<close> object of a response is \<^verbatim>\<open>null\<close>.\<close>

definition track_subfields_null :: "json \<Rightarrow> bool" where
  "track_subfields_null content =
     (case py_get content ''track'' JNull of
        Inr (JObj fs) \<Rightarrow> list_all (\<lambda>kv. snd kv = JNull) fs
      | r \<Rightarrow> False)"

text \<open>An upstream that answers every request with status 200 and the given body.\<close>

definition ex_playing_upstream :: "json \<Rightarrow> upstream" where
  "ex_playing_upstream body =
     (\<lambda>req. Inr \<lparr>status_code = 200, body_text = [], json_body = Some body\<rparr>)"

definition ex_no_item :: "(string \<times> json) list" where
  "ex_no_item = [(''is_playing'', JBool False), (''progress_ms'', JInt 0)]"

subsection \<open>Well-shaped listings\<close>

text \<open>
  The shapes on which the aggregators do not raise. In a track, the album is
  missing or an object whose artists are missing or a list of objects, whose
  external URLs are missing or an object and whose id is hashable or falsy. In
  an artist, the genres are missing or a list of hashable values. A listing is
  an object whose items are missing or a list.
\<close>

definition well_shaped_album :: "json \<Rightarrow> bool" where
  "well_shaped_album album =
     (case album of
        JObj kvs \<Rightarrow>
          absent_or_dicts kvs ''artists'' \<and> absent_or_dict kvs ''external_urls'' \<and>
          (hashable (field kvs ''id'') \<or> \<not> truthy (field kvs ''id''))
      | v \<Rightarrow> False)"

definition well_shaped_track :: "json \<Rightarrow> bool" where
  "well_shaped_track track =
     (case track of
        JObj kvs \<Rightarrow> (case map_of kvs ''album'' of None \<Rightarrow> True | Some a \<Rightarrow> well_shaped_album a)
      | v \<Rightarrow> False)"

definition well_shaped_artist :: "json \<Rightarrow> bool" where
  "well_shaped_artist artist =
     (case artist of
        JObj kvs \<Rightarrow>
          (case map_of kvs ''genres'' of
             None \<Rightarrow> True
           | Some (JArr gs) \<Rightarrow> list_all hashable gs
           | Some v \<Rightarrow> False)
      | v \<Rightarrow> False)"

definition well_shaped_listing :: "(json \<Rightarrow> bool) \<Rightarrow> json \<Rightarrow> bool" where
  "well_shaped_listing shaped listing =
     (case listing of
        JObj kvs \<Rightarrow>
          (case map_of kvs ''items'' of
             None \<Rightarrow> True
           | Some (JArr xs) \<Rightarrow> list_all shaped xs
           | Some v \<Rightarrow> False)
      | v \<Rightarrow> False)"

subsection \<open>The authorize URL\<close>

definition login_scopes :: "string list" where
  "login_scopes = [''user-read-recently-played'', ''user-read-private'', ''user-read-email'',
     ''user-top-read'', ''user-read-currently-playing'']"

fun join_space :: "string list \<Rightarrow> string" where
  "join_space [] = []"
| "join_space [x] = x"
| "join_space (x # y # ys) = x @ '' '' @ join_space (y # ys)"

text \<open>Modelled from the spec: the URL-escaping of a query parameter value, which
  \<^verbatim>\<open>main.py\<close> does not contain. Every character outside the unreserved set is
  percent-encoded.\<close>

definition unreserved :: "char \<Rightarrow> bool" where
  "unreserved c =
     (c \<in> set ''ABCDEFGHIJKLMNOPQRSTUVWXYZabcdefghijklmnopqrstuvwxyz0123456789-_.~'')"

definition url_escape :: "string \<Rightarrow> string" where
  "url_escape s =
     concat (map (\<lambda>c. if unreserved c then [c]
                       else [CHR ''%'', hex_digit (of_char c div 16),
                             hex_digit (of_char c mod 16)]) s)"

text \<open>Modelled from the spec: \<^verbatim>\<open>buildAuthorizeUrl\<close>, the scopes joined by a single
  space and then URL-escaped as one query parameter.\<close>

definition build_authorize_url :: "string \<Rightarrow> string \<Rightarrow> string list \<Rightarrow> string" where
  "build_authorize_url clientId redirectUri scopes =
     ''https://accounts.spotify.com/authorize?response_type=code&client_id='' @ clientId
     @ ''&redirect_uri='' @ redirectUri @ ''&scope='' @ url_escape (join_space scopes)"

definition ex_cfg :: config where
  "ex_cfg = \<lparr>SPOTIFY_CLIENT_ID = Some ''id'', SPOTIFY_CLIENT_SECRET = Some ''secret'',
     SPOTIFY_REDIRECT_URI = Some ''http://localhost/callback''\<rparr>"

subsection \<open>The Basic-auth header of the authorization-code exchange\<close>

text \<open>Modelled from the spec: the \<^verbatim>\<open>Authorization\<close> value of the authorization-code
  exchange. \<^verbatim>\<open>callback\<close> hands \<^verbatim>\<open>auth=(SPOTIFY_CLIENT_ID, SPOTIFY_CLIENT_SECRET)\<close> to the
  requests library, which builds the header; that code is not in \<^verbatim>\<open>main.py\<close>. The
  spec gives it as HTTP Basic credentials, base64 of \<^verbatim>\<open>clientId:clientSecret\<close>.\<close>

definition exchange_basic_auth :: "string \<Rightarrow> string \<Rightarrow> string" where
  "exchange_basic_auth clientId clientSecret =
     ''Basic '' @ b64encode (clientId @ '':'' @ clientSecret)"

subsection \<open>An upstream for the callback\<close>






text \<open>An upstream whose token endpoint rejects the refresh token.\<close>

definition ex_rejecting_upstream :: upstream where
  "ex_rejecting_upstream req =
     Inr \<lparr>status_code = 400, body_text = ''invalid_grant'', json_body = None\<rparr>"

text \<open>An upstream that answers 401 to every request.\<close>

definition ex_expired_upstream :: upstream where
  "ex_expired_upstream req =
     Inr \<lparr>status_code = 401, body_text = [], json_body = None\<rparr>"

section \<open>Basic facts\<close>

lemma bind_Inl [simp]: "bind (Inl e) f = Inl e"
  by (simp add: bind_def)

lemma bind_Inr [simp]: "bind (Inr x) f = f x"
  by (simp add: bind_def)

lemma bind_eq_Inr: "bind m f = Inr y \<longleftrightarrow> (\<exists>x. m = Inr x \<and> f x = Inr y)"
  by (cases m) simp_all

lemma truthy_key: "py_hash a = Inr k \<Longrightarrow> py_hash b = Inr k \<Longrightarrow> truthy a = truthy b"
  by (cases a; cases b) (auto split: if_splits)

lemma sorted_sort_desc: "sorted_wrt (\<lambda>a b. key b \<le> key a) (sort_desc key xs)"
proof -
  have "sorted (map (\<lambda>x. - int (key x)) (sort_desc key xs))"
    unfolding sort_desc_def by (rule sorted_sort_key)
  then show ?thesis
    by (simp add: sorted_map)
qed

lemma sum_list_take_le: "sum_list (take n (xs :: nat list)) \<le> sum_list xs"
proof -
  have "sum_list xs = sum_list (take n xs) + sum_list (drop n xs)"
    by (metis append_take_drop_id sum_list_append)
  then show ?thesis by simp
qed

lemma sum_list_insort_key:
  "sum_list (map f (insort_key k x xs)) = (f x :: nat) + sum_list (map f xs)"
  by (induction xs) auto

lemma sum_list_sort_desc:
  "sum_list (map f (sort_desc key xs)) = sum_list (map (f :: 'a \<Rightarrow> nat) xs)"
  unfolding sort_desc_def by (induction xs) (auto simp: sum_list_insort_key)

lemma py_get_JObj: "py_get (JObj kvs) k d = Inr (field_or kvs k d)"
  by (simp add: field_or_def)

lemma get_each_dicts:
  "list_all (\<lambda>x. case x of JObj kv \<Rightarrow> True | v \<Rightarrow> False) xs \<Longrightarrow>
   get_each k xs = Inr (map (\<lambda>a. field a k) (map (\<lambda>x. case x of JObj kv \<Rightarrow> kv | v \<Rightarrow> []) xs))"
  by (induction xs) (auto simp: field_def split: json.splits)

lemma item_get:
  "absent_or_dict kvs k \<Longrightarrow> py_get (JObj kvs) k (JObj []) = Inr (JObj (sub_dict kvs k))"
  by (auto simp: absent_or_dict_def sub_dict_def split: option.splits json.splits)

lemma bind_returns:
  "\<exists>x. m = Inr x \<Longrightarrow> (\<And>x. \<exists>y. f x = Inr y) \<Longrightarrow> \<exists>y. bind m f = Inr y"
  by auto

section \<open>The loop of \<^verbatim>\<open>get_top_albums\<close>\<close>

lemma new_album_stats_count: "new_album_stats a = Inr s \<Longrightarrow> count s = 0"
  by (auto simp: new_album_stats_def bind_eq_Inr)

lemma map_entry_keys: "map fst (AList.map_entry k f al) = map fst al"
  by (induction al) auto

lemma total_map_entry:
  "map_of st k \<noteq> None \<Longrightarrow> total (AList.map_entry k (add_track t) st) = total st + 1"
  by (induction st) (auto simp: total_def add_track_def)

lemma cnt_map_entry:
  "cnt (AList.map_entry k (add_track t) st) k' =
     (if k' = k \<and> map_of st k \<noteq> None then cnt st k' + 1 else cnt st k')"
  by (auto simp: cnt_def map_of_map_entry add_track_def split: option.splits)

lemma good_map_entry: "good st \<Longrightarrow> good (AList.map_entry k (add_track t) st)"
  unfolding good_def
  by (induction st) (auto simp: add_track_def map_entry_keys dom_map_entry)

lemma total_append [simp]: "total (xs @ ys) = total xs + total ys"
  by (simp add: total_def)

lemma cnt_append_new:
  "map_of st k = None \<Longrightarrow> cnt (st @ [(k, i, s)]) k' = (if k' = k then count s else cnt st k')"
  by (auto simp: cnt_def map_of_append split: option.splits)

lemma good_append_new:
  "good st \<Longrightarrow> map_of st k = None \<Longrightarrow> py_hash i = Inr k \<Longrightarrow> good (st @ [(k, i, s)])"
  by (auto simp: good_def map_of_eq_None_iff)

lemma good_Nil: "good []"
  by (simp add: good_def)

text \<open>What one iteration does to the dict: nothing for a skipped track; for a
  counted one, the entry of its key gets the track, after being created with
  count 0 where the key is new.\<close>

lemma album_step_cases:
  assumes "album_step t st = Inr st'"
  shows "(track_key t = None \<and> st' = st) \<or>
         (\<exists>k tr. track_key t = Some k \<and> py_hash (track_album_id t) = Inr k \<and>
            ((map_of st k \<noteq> None \<and> st' = AList.map_entry k (add_track tr) st) \<or>
             (\<exists>s. map_of st k = None \<and> count s = 0 \<and>
                st' = AList.map_entry k (add_track tr) (st @ [(k, track_album_id t, s)]))))"
proof -
  from assms obtain album album_id where
    a: "py_get t ''album'' (JObj []) = Inr album" and
    i: "py_get album ''id'' JNull = Inr album_id" and
    r: "(if \<not> truthy album_id then Inr st
         else bind (py_hash album_id) (\<lambda>k.
           bind (if map_of st k = None
                 then bind (new_album_stats album) (\<lambda>s. Inr (st @ [(k, album_id, s)]))
                 else Inr st) (\<lambda>st1.
           bind (py_get t ''name'' JNull) (\<lambda>tn.
           bind (py_get t ''popularity'' JNull) (\<lambda>tp.
           Inr (AList.map_entry k (add_track (tn, tp)) st1)))))) = Inr st'"
    unfolding album_step_def bind_eq_Inr by blast
  have tid: "track_album_id t = album_id"
    by (simp add: track_album_id_def a i)
  show ?thesis
  proof (cases "truthy album_id")
    case False
    with r tid show ?thesis by (simp add: track_key_def)
  next
    case True
    with r obtain k st1 tn tp where
      k: "py_hash album_id = Inr k" and
      s1: "(if map_of st k = None
            then bind (new_album_stats album) (\<lambda>s. Inr (st @ [(k, album_id, s)]))
            else Inr st) = Inr st1" and
      st': "st' = AList.map_entry k (add_track (tn, tp)) st1"
      by (auto simp: bind_eq_Inr)
    have tk: "track_key t = Some k"
      using True k tid by (simp add: track_key_def)
    show ?thesis
    proof (cases "map_of st k = None")
      case False
      with s1 st' tk k tid show ?thesis by auto
    next
      case N: True
      with s1 obtain s where "new_album_stats album = Inr s" "st1 = st @ [(k, album_id, s)]"
        by (auto simp: bind_eq_Inr)
      with st' tk k tid N new_album_stats_count show ?thesis by blast
    qed
  qed
qed

lemma album_step_skip:
  "album_step t st = Inr st' \<Longrightarrow> track_key t = None \<Longrightarrow> st' = st"
  using album_step_cases by fastforce

lemma album_step_keys:
  assumes "album_step t st = Inr st'" "track_key t = Some k"
  shows "map fst st' = (if map_of st k \<noteq> None then map fst st else map fst st @ [k])"
  using album_step_cases [OF assms(1)] assms(2)
  by (auto simp: map_entry_keys)

lemma album_step_key_set:
  assumes "album_step t st = Inr st'" "track_key t = Some k"
  shows "fst ` set st' = insert k (fst ` set st)"
proof (cases "map_of st k = None")
  case True
  have "set (map fst st') = set (map fst st @ [k])"
    using album_step_keys [OF assms] True by simp
  then show ?thesis by simp
next
  case False
  then have "k \<in> fst ` set st"
    by (simp add: map_of_eq_None_iff)
  moreover have "set (map fst st') = set (map fst st)"
    using album_step_keys [OF assms] False by simp
  ultimately show ?thesis by auto
qed

lemma album_step_total:
  assumes "album_step t st = Inr st'" "track_key t = Some k"
  shows "total st' = total st + 1"
proof -
  have "total (AList.map_entry k (add_track tr) (st @ [(k, i, s)])) = total st + 1"
    if "count s = 0" for tr i s
    using that by (subst total_map_entry) (simp_all add: map_of_append total_def)
  then show ?thesis
    using album_step_cases [OF assms(1)] assms(2)
    by (auto simp: total_map_entry)
qed

lemma album_step_cnt:
  assumes "album_step t st = Inr st'" "track_key t = Some k"
  shows "cnt st' k' = (if k' = k then cnt st k' + 1 else cnt st k')"
proof -
  have "cnt (AList.map_entry k (add_track tr) (st @ [(k, i, s)])) k' =
        (if k' = k then cnt st k' + 1 else cnt st k')"
    if "count s = 0" "map_of st k = None" for tr i s
    using that by (simp add: cnt_map_entry cnt_append_new map_of_append) (simp add: cnt_def)
  then show ?thesis
    using album_step_cases [OF assms(1)] assms(2)
    by (auto simp: cnt_map_entry)
qed

lemma album_step_good:
  "album_step t st = Inr st' \<Longrightarrow> good st \<Longrightarrow> good st'"
  using album_step_cases [of t st st']
  by (auto intro!: good_map_entry good_append_new)

lemma album_loop_inv:
  "album_loop ts st = Inr st' \<Longrightarrow> good st \<Longrightarrow>
     good st' \<and>
     total st' = total st + length (filter (\<lambda>t. track_key t \<noteq> None) ts) \<and>
     (\<forall>k. cnt st' k = cnt st k + length (filter (\<lambda>t. track_key t = Some k) ts)) \<and>
     fst ` set st' = fst ` set st \<union> {k. \<exists>t \<in> set ts. track_key t = Some k}"
proof (induction ts arbitrary: st)
  case Nil
  then show ?case by simp
next
  case (Cons t ts)
  from Cons.prems(1) obtain st1 where
    s: "album_step t st = Inr st1" and l: "album_loop ts st1 = Inr st'"
    by (auto simp: bind_eq_Inr)
  have g1: "good st1" using album_step_good [OF s Cons.prems(2)] .
  note ih = Cons.IH [OF l g1]
  show ?case
  proof (cases "track_key t")
    case None
    then have "st1 = st" using album_step_skip [OF s] by simp
    with ih None show ?thesis by auto
  next
    case (Some k)
    show ?thesis
      using ih Some album_step_total [OF s Some] album_step_cnt [OF s Some]
        album_step_key_set [OF s Some]
      by auto
  qed
qed

lemma ids_map_entry:
  "map (\<lambda>e. fst (snd e)) (AList.map_entry k (add_track tr) st) = map (\<lambda>e. fst (snd e)) st"
  by (induction st) (auto simp: add_track_def)

lemma album_step_ids:
  assumes "album_step t st = Inr st'"
  shows "(\<lambda>e. fst (snd e)) ` set st' \<subseteq> insert (track_album_id t) ((\<lambda>e. fst (snd e)) ` set st)"
proof -
  let ?ids = "map (\<lambda>e. fst (snd e))"
  from album_step_cases [OF assms] consider
    (skip) "st' = st"
    | (old) k tr where "st' = AList.map_entry k (add_track tr) st"
    | (new) k tr s where "st' = AList.map_entry k (add_track tr) (st @ [(k, track_album_id t, s)])"
    by blast
  then have "?ids st' = ?ids st \<or> ?ids st' = ?ids st @ [track_album_id t]"
    by cases (simp_all add: ids_map_entry)
  then have "set (?ids st') \<subseteq> insert (track_album_id t) (set (?ids st))"
  proof
    assume "?ids st' = ?ids st"
    then show ?thesis by (simp only:) blast
  next
    assume "?ids st' = ?ids st @ [track_album_id t]"
    then show ?thesis by (simp only: set_append list.set) blast
  qed
  then show ?thesis by (simp only: set_map)
qed

lemma album_loop_ids:
  "album_loop ts st = Inr st' \<Longrightarrow>
     (\<lambda>e. fst (snd e)) ` set st' \<subseteq> (\<lambda>e. fst (snd e)) ` set st \<union> track_album_id ` set ts"
proof (induction ts arbitrary: st)
  case Nil
  then show ?case by simp
next
  case (Cons t ts)
  from Cons.prems obtain st1 where
    s: "album_step t st = Inr st1" and l: "album_loop ts st1 = Inr st'"
    by (auto simp: bind_eq_Inr)
  from Cons.IH [OF l] album_step_ids [OF s] show ?case by auto
qed

lemma same_key_eq:
  "py_hash a = Inr k \<Longrightarrow> py_hash b = Inr k \<Longrightarrow> a \<noteq> JBool True \<Longrightarrow> b \<noteq> JBool True \<Longrightarrow>
     truthy a \<Longrightarrow> a = b"
  by (cases a; cases b) (auto split: if_splits)


lemma get_top_albums_loop:
  assumes "get_top_albums td = Inr out"
  obtains st where "album_loop (input_items td) [] = Inr st"
    and "out = take 10 (sort_desc count (map to_top_album st))"
  using assms unfolding get_top_albums_def input_items_def
  by (auto simp: bind_eq_Inr)

lemma count_to_top_album [simp]: "count (to_top_album e) = count (snd (snd e))"
  by (simp add: to_top_album_def album_stats.defs)

lemma id_to_top_album [simp]: "top_album.id (to_top_album e) = fst (snd e)"
  by (simp add: to_top_album_def album_stats.defs)

lemma key_set_card:
  "card {k. \<exists>t \<in> set ts. track_key t = Some k} \<le> length (distinct_album_ids ts)"
proof -
  let ?h = "\<lambda>i. case py_hash i of Inl e \<Rightarrow> KNone | Inr k \<Rightarrow> k"
  have "{k. \<exists>t \<in> set ts. track_key t = Some k} \<subseteq> ?h ` set (distinct_album_ids ts)"
  proof
    fix k assume "k \<in> {k. \<exists>t \<in> set ts. track_key t = Some k}"
    then obtain t where t: "t \<in> set ts" "track_key t = Some k" by blast
    then have "truthy (track_album_id t)" "py_hash (track_album_id t) = Inr k"
      by (auto simp: track_key_def split: if_splits sum.splits)
    then have "track_album_id t \<in> set (distinct_album_ids ts)" "?h (track_album_id t) = k"
      using t(1) by (auto simp: distinct_album_ids_def)
    then show "k \<in> ?h ` set (distinct_album_ids ts)" by blast
  qed
  then have "card {k. \<exists>t \<in> set ts. track_key t = Some k}
               \<le> card (?h ` set (distinct_album_ids ts))"
    by (intro card_mono) auto
  also have "\<dots> \<le> card (set (distinct_album_ids ts))"
    by (intro card_image_le) auto
  also have "\<dots> = length (distinct_album_ids ts)"
    by (simp add: distinct_album_ids_def length_remdups_card_conv)
  finally show ?thesis .
qed

lemma ex_tracks_result: "get_top_albums ex_tracks = Inr ex_top_albums"
  by (simp add: ex_tracks_def ex_top_albums_def get_top_albums_def album_step_def
      new_album_stats_def sort_desc_def to_top_album_def add_track_def album_stats.defs)

section \<open>Properties of \<^verbatim>\<open>get_top_albums\<close>\<close>

text \<open>
  C3. For every input track list on which \<^verbatim>\<open>get_top_albums\<close> returns, the output
  has at most 10 elements and at most as many as there are distinct album ids
  in the input, the returned counts sum to at most the length of the input
  list, and the output is sorted non-increasing by count.
\<close>

theorem get_top_albums_bounds:
  assumes "get_top_albums tracks_data = Inr out"
  shows "length out \<le> 10 \<and>
         length out \<le> length (distinct_album_ids (input_items tracks_data)) \<and>
         sum_list (map count out) \<le> length (input_items tracks_data) \<and>
         sorted_wrt (\<lambda>a b. count b \<le> count a) out"
proof -
  let ?ts = "input_items tracks_data"
  from assms obtain st where
    l: "album_loop ?ts [] = Inr st" and out: "out = take 10 (sort_desc count (map to_top_album st))"
    by (rule get_top_albums_loop)
  note inv = album_loop_inv [OF l good_Nil]
  have 1: "length out \<le> 10" by (simp add: out)
  have "length out \<le> length st" by (simp add: out sort_desc_def)
  also have "\<dots> = card (fst ` set st)"
    using inv distinct_card [of "map fst st"] by (simp add: good_def)
  also have "\<dots> \<le> length (distinct_album_ids ?ts)"
    using inv key_set_card [of ?ts] by simp
  finally have 2: "length out \<le> length (distinct_album_ids ?ts)" .
  have "sum_list (map count out) \<le> sum_list (map count (sort_desc count (map to_top_album st)))"
    using sum_list_take_le [of 10 "map count (sort_desc count (map to_top_album st))"]
    by (simp add: out take_map)
  also have "\<dots> = total st"
    by (simp add: sum_list_sort_desc total_def comp_def)
  also have "\<dots> \<le> length ?ts"
    using inv by (simp add: total_def)
  finally have 3: "sum_list (map count out) \<le> length ?ts" .
  have 4: "sorted_wrt (\<lambda>a b. count b \<le> count a) out"
    unfolding out by (intro sorted_wrt_take sorted_sort_desc)
  from 1 2 3 4 show ?thesis by blast
qed

theorem get_top_albums_bounds_witness:
  "get_top_albums ex_tracks = Inr ex_top_albums \<and>
   length ex_top_albums \<le> 10 \<and>
   length ex_top_albums \<le> length (distinct_album_ids (input_items ex_tracks)) \<and>
   sum_list (map count ex_top_albums) \<le> length (input_items ex_tracks) \<and>
   sorted_wrt (\<lambda>a b. count b \<le> count a) ex_top_albums"
  using ex_tracks_result get_top_albums_bounds [OF ex_tracks_result] by simp

text \<open>
  C4. For every input track list and every aggregate that \<^verbatim>\<open>get_top_albums\<close>
  returns, the aggregate's count is the number of tracks of the input whose
  album id equals the aggregate's id. Equality is that of dict keys; it is
  plain equality of the ids unless the boolean \<^verbatim>\<open>true\<close> is used as an album id
  (Python takes \<^verbatim>\<open>True\<close> and \<^verbatim>\<open>1\<close> for the same key). None of the counted tracks has
  an absent album id, and the input \<^verbatim>\<open>[{album:{}, name:"t1"}]\<close> yields the empty
  output.
\<close>

theorem get_top_albums_count:
  assumes "get_top_albums tracks_data = Inr out" and "a \<in> set out"
  shows "count a = length (tracks_of_album (input_items tracks_data) (top_album.id a)) \<and>
         (JBool True \<notin> track_album_id ` set (input_items tracks_data) \<longrightarrow>
            count a = length (filter (\<lambda>t. track_album_id t = top_album.id a)
                                (input_items tracks_data))) \<and>
         (\<forall>t \<in> set (tracks_of_album (input_items tracks_data) (top_album.id a)).
            track_album_id t \<noteq> JNull) \<and>
         get_top_albums ex_no_album_id = Inr []"
proof -
  let ?ts = "input_items tracks_data"
  from assms obtain st where
    l: "album_loop ?ts [] = Inr st" and out: "out = take 10 (sort_desc count (map to_top_album st))"
    by (auto elim: get_top_albums_loop)
  note inv = album_loop_inv [OF l good_Nil]
  from assms(2) have "a \<in> set (sort_desc count (map to_top_album st))"
    unfolding out by (rule in_set_takeD)
  then obtain e where e: "e \<in> set st" "a = to_top_album e"
    by (auto simp: sort_desc_def)
  obtain k i s where kis: "e = (k, i, s)" by (cases e)
  have h: "py_hash i = Inr k" and m: "map_of st k = Some (i, s)"
    using inv e(1) kis by (auto simp: good_def)
  have c: "count a = cnt st k"
    by (simp add: e(2) kis cnt_def m)
  have ida: "top_album.id a = i"
    by (simp add: e(2) kis)
  have "i \<in> (\<lambda>e. fst (snd e)) ` set st" using e(1) kis by force
  then have iin: "i \<in> track_album_id ` set ?ts"
    using album_loop_ids [OF l] by auto
  have "k \<in> fst ` set st" using e(1) kis by force
  then obtain t0 where t0: "track_key t0 = Some k"
    using inv by auto
  then have tr: "truthy (track_album_id t0)" "py_hash (track_album_id t0) = Inr k"
    by (auto simp: track_key_def split: if_splits sum.splits)
  have ti: "truthy i"
    using truthy_key [OF tr(2) h] tr(1) by simp
  have eq: "track_key t = Some k \<longleftrightarrow> same_key (track_album_id t) i" for t
    using truthy_key [OF tr(2), of "track_album_id t"] tr(1) h
    by (auto simp: track_key_def same_key_def split: sum.splits)
  then have "filter (\<lambda>t. track_key t = Some k) ?ts = tracks_of_album ?ts i"
    by (simp add: tracks_of_album_def)
  moreover have "cnt st k = length (filter (\<lambda>t. track_key t = Some k) ?ts)"
    using inv by (simp add: cnt_def)
  ultimately have 1: "count a = length (tracks_of_album ?ts (top_album.id a))"
    using c ida by simp
  have 2: "count a = length (filter (\<lambda>t. track_album_id t = top_album.id a) ?ts)"
    if nb: "JBool True \<notin> track_album_id ` set ?ts"
  proof -
    have "same_key (track_album_id t) i \<longleftrightarrow> track_album_id t = i" if t: "t \<in> set ?ts" for t
    proof
      assume "same_key (track_album_id t) i"
      then have "py_hash (track_album_id t) = Inr k"
        using h by (auto simp: same_key_def split: sum.splits)
      moreover have "track_album_id t \<noteq> JBool True"
        using nb t by (metis imageI)
      moreover have "i \<noteq> JBool True"
        using nb iin by metis
      ultimately show "track_album_id t = i"
        using same_key_eq [OF h, of "track_album_id t"] ti by simp
    next
      assume "track_album_id t = i"
      then show "same_key (track_album_id t) i"
        using h by (simp add: same_key_def)
    qed
    then have "tracks_of_album ?ts i = filter (\<lambda>t. track_album_id t = i) ?ts"
      unfolding tracks_of_album_def by (intro filter_cong) simp_all
    with 1 ida show ?thesis by simp
  qed
  have 3: "track_album_id t \<noteq> JNull" if "t \<in> set (tracks_of_album ?ts (top_album.id a))" for t
  proof -
    from that have "track_key t = Some k"
      by (simp add: tracks_of_album_def ida eq)
    then show ?thesis
      by (auto simp: track_key_def split: if_splits)
  qed
  have 4: "get_top_albums ex_no_album_id = Inr []"
    by (simp add: ex_no_album_id_def get_top_albums_def album_step_def sort_desc_def)
  from 1 2 3 4 show ?thesis by blast
qed

theorem get_top_albums_count_witness:
  "get_top_albums ex_tracks = Inr ex_top_albums \<and>
   hd ex_top_albums \<in> set ex_top_albums \<and>
   count (hd ex_top_albums) = 2 \<and>
   length (tracks_of_album (input_items ex_tracks) (top_album.id (hd ex_top_albums))) = 2"
proof -
  have m: "hd ex_top_albums \<in> set ex_top_albums"
    by (simp add: ex_top_albums_def)
  have "count (hd ex_top_albums) = 2"
    by (simp add: ex_top_albums_def)
  with ex_tracks_result m get_top_albums_count [OF ex_tracks_result m] show ?thesis
    by simp
qed

section \<open>The loops of \<^verbatim>\<open>get_top_genres\<close>\<close>

lemma hashable_py_hash: "hashable x \<longleftrightarrow> py_hash x = Inr (key_of x)"
  by (simp add: hashable_def key_of_def split: sum.splits)

lemma same_key_iff: "hashable a \<Longrightarrow> hashable b \<Longrightarrow> same_key a b \<longleftrightarrow> key_of a = key_of b"
  by (simp add: hashable_py_hash same_key_def)

lemma first_seen_subset: "set (first_seen xs) \<subseteq> set xs"
  by (induction xs) auto

lemma first_seen_keys:
  "list_all hashable xs \<Longrightarrow> key_of ` set (first_seen xs) = key_of ` set xs"
proof (induction xs)
  case Nil
  then show ?case by simp
next
  case (Cons x xs)
  then have ih: "key_of ` set (first_seen xs) = key_of ` set xs" and hx: "hashable x"
    and hxs: "list_all hashable xs" by simp_all
  have h: "hashable y" if "y \<in> set (first_seen xs)" for y
    using that first_seen_subset [of xs] hxs by (auto simp: list_all_iff)
  have "key_of ` set (first_seen (x # xs)) =
        insert (key_of x) (key_of ` {y \<in> set (first_seen xs). key_of y \<noteq> key_of x})"
    using h hx by (auto simp: same_key_iff)
  also have "\<dots> = insert (key_of x) (key_of ` set (first_seen xs))"
    by auto
  finally show ?case using ih by simp
qed

lemma first_seen_distinct:
  "list_all hashable xs \<Longrightarrow> distinct (map key_of (first_seen xs))"
proof (induction xs)
  case Nil
  then show ?case by simp
next
  case (Cons x xs)
  then have ih: "distinct (map key_of (first_seen xs))" and hx: "hashable x"
    and hxs: "list_all hashable xs" by simp_all
  have h: "hashable y" if "y \<in> set (first_seen xs)" for y
    using that first_seen_subset [of xs] hxs by (auto simp: list_all_iff)
  have "key_of x \<notin> key_of ` set (filter (\<lambda>y. \<not> same_key y x) (first_seen xs))"
    using h hx by (auto simp: same_key_iff)
  moreover have "distinct (map key_of (filter (\<lambda>y. \<not> same_key y x) (first_seen xs)))"
    using ih by (rule distinct_map_filter)
  ultimately show ?case by simp
qed

lemma first_seen_snoc:
  "list_all hashable xs \<Longrightarrow> hashable g \<Longrightarrow>
   first_seen (xs @ [g]) =
     (if key_of g \<in> key_of ` set xs then first_seen xs else first_seen xs @ [g])"
proof (induction xs)
  case Nil
  then show ?case by simp
next
  case (Cons x xs)
  then have hx: "hashable x" and hxs: "list_all hashable xs" by simp_all
  note ih = Cons.IH [OF hxs Cons.prems(2)]
  show ?case
  proof (cases "key_of g \<in> key_of ` set xs")
    case True
    with ih show ?thesis by simp
  next
    case False
    with ih have "first_seen (xs @ [g]) = first_seen xs @ [g]" by simp
    then show ?thesis
      using False hx Cons.prems(2) by (auto simp: same_key_iff)
  qed
qed

lemma occurrences_snoc:
  "occurrences (xs @ [g]) x = occurrences xs x + (if same_key g x then 1 else 0)"
  by (simp add: occurrences_def)

lemma occurrences_zero:
  "list_all hashable xs \<Longrightarrow> hashable g \<Longrightarrow> key_of g \<notin> key_of ` set xs \<Longrightarrow> occurrences xs g = 0"
proof -
  assume a: "list_all hashable xs" "hashable g" "key_of g \<notin> key_of ` set xs"
  have "\<not> same_key x g" if "x \<in> set xs" for x
  proof -
    have "hashable x" using a(1) that by (simp add: list_all_iff)
    moreover have "key_of x \<noteq> key_of g" using a(3) that by (metis image_eqI)
    ultimately show ?thesis using a(2) by (simp add: same_key_iff)
  qed
  then show ?thesis
    by (simp add: occurrences_def filter_empty_conv)
qed

lemma update_mapped:
  "distinct (map kf xs) \<Longrightarrow>
   AList.update k v (map (\<lambda>x. (kf x, F x)) xs) =
     (if k \<in> kf ` set xs
      then map (\<lambda>x. if kf x = k then (k, v) else (kf x, F x)) xs
      else map (\<lambda>x. (kf x, F x)) xs @ [(k, v)])"
  by (induction xs) (auto simp: image_iff)

lemma map_of_mapped:
  "distinct (map kf xs) \<Longrightarrow> x \<in> set xs \<Longrightarrow> map_of (map (\<lambda>x. (kf x, F x)) xs) (kf x) = Some (F x)"
  by (induction xs) (auto simp: image_iff)

lemma map_of_mapped_None:
  "k \<notin> kf ` set xs \<Longrightarrow> map_of (map (\<lambda>x. (kf x, F x)) xs) k = None"
  by (induction xs) auto

lemma genre_step_gc_of:
  assumes "genre_step g (gc_of pre) = Inr gc'" and pre: "list_all hashable pre"
  shows "hashable g \<and> gc' = gc_of (pre @ [g])"
proof -
  from assms(1) obtain k where k: "py_hash g = Inr k" and
    gc': "gc' = AList.update k
            (case map_of (gc_of pre) k of None \<Rightarrow> (g, 0 + 1) | Some e \<Rightarrow> (fst e, snd e + 1))
            (gc_of pre)"
    by (auto simp: genre_step_def bind_def split: sum.splits)
  have hg: "hashable g" and kg: "key_of g = k"
    using k by (simp_all add: hashable_def key_of_def)
  let ?v = "case map_of (gc_of pre) k of None \<Rightarrow> (g, 0 + 1) | Some e \<Rightarrow> (fst e, snd e + 1)"
  have d: "distinct (map key_of (first_seen pre))"
    using pre by (rule first_seen_distinct)
  have h: "hashable x" if "x \<in> set (first_seen pre)" for x
    using that first_seen_subset [of pre] pre by (auto simp: list_all_iff)
  have ks: "key_of ` set (first_seen pre) = key_of ` set pre"
    using pre by (rule first_seen_keys)
  have upd: "gc' = (if k \<in> key_of ` set (first_seen pre)
      then map (\<lambda>x. if key_of x = k then (k, ?v) else (key_of x, x, occurrences pre x)) (first_seen pre)
      else gc_of pre @ [(k, ?v)])"
    unfolding gc' gc_of_def
    using update_mapped [OF d, of k ?v "\<lambda>x. (x, occurrences pre x)"]
    by (simp add: gc_of_def)
  show ?thesis
  proof (cases "k \<in> key_of ` set pre")
    case True
    have fs: "first_seen (pre @ [g]) = first_seen pre"
      using first_seen_snoc [OF pre hg] True kg by simp
    have "(if key_of x = k then (k, ?v) else (key_of x, x, occurrences pre x))
            = (key_of x, x, occurrences (pre @ [g]) x)" if x: "x \<in> set (first_seen pre)" for x
    proof (cases "key_of x = k")
      case kx: True
      have "map_of (gc_of pre) k = Some (x, occurrences pre x)"
        unfolding gc_of_def using map_of_mapped [OF d x] kx by simp
      moreover have "same_key g x"
        using h [OF x] hg kg kx by (simp add: same_key_iff)
      ultimately show ?thesis
        using kx by (simp add: occurrences_snoc)
    next
      case False
      then have "\<not> same_key g x"
        using h [OF x] hg kg by (simp add: same_key_iff)
      with False show ?thesis by (simp add: occurrences_snoc)
    qed
    then have "map (\<lambda>x. if key_of x = k then (k, ?v) else (key_of x, x, occurrences pre x))
                 (first_seen pre) = gc_of (pre @ [g])"
      unfolding gc_of_def fs by (intro map_cong) simp_all
    with upd True ks hg show ?thesis by simp
  next
    case False
    have fs: "first_seen (pre @ [g]) = first_seen pre @ [g]"
      using first_seen_snoc [OF pre hg] False kg by simp
    have v: "?v = (g, 1)"
      using map_of_mapped_None [of k key_of "first_seen pre" "\<lambda>x. (x, occurrences pre x)"]
        False ks
      by (simp add: gc_of_def)
    have o: "occurrences (pre @ [g]) g = 1"
      using occurrences_zero [OF pre hg] False kg hg
      by (simp add: occurrences_snoc same_key_iff)
    have "occurrences (pre @ [g]) x = occurrences pre x" if x: "x \<in> set (first_seen pre)" for x
    proof -
      have "key_of x \<noteq> k" using x False ks by auto
      then have "\<not> same_key g x"
        using h [OF x] hg kg by (simp add: same_key_iff)
      then show ?thesis by (simp add: occurrences_snoc)
    qed
    then have "gc_of (pre @ [g]) = gc_of pre @ [(k, g, 1)]"
      unfolding gc_of_def fs using o kg by simp
    with upd False ks v hg show ?thesis by simp
  qed
qed

lemma genre_loop_gc_of:
  "genre_loop gs (gc_of pre) = Inr gc' \<Longrightarrow> list_all hashable pre \<Longrightarrow>
     list_all hashable (pre @ gs) \<and> gc' = gc_of (pre @ gs)"
proof (induction gs arbitrary: pre)
  case Nil
  then show ?case by simp
next
  case (Cons g gs)
  from Cons.prems(1) obtain gc1 where
    s: "genre_step g (gc_of pre) = Inr gc1" and l: "genre_loop gs gc1 = Inr gc'"
    by (auto simp: bind_def split: sum.splits)
  from genre_step_gc_of [OF s Cons.prems(2)]
  have hg: "hashable g" and gc1: "gc1 = gc_of (pre @ [g])" by simp_all
  have "list_all hashable (pre @ [g])" using Cons.prems(2) hg by simp
  from Cons.IH [OF l [unfolded gc1] this] show ?case by simp
qed

lemma artist_loop_gc_of:
  "artist_loop as (gc_of pre) = Inr gc' \<Longrightarrow> list_all hashable pre \<Longrightarrow>
     list_all hashable (pre @ concat (map artist_tags as)) \<and>
     gc' = gc_of (pre @ concat (map artist_tags as))"
proof (induction as arbitrary: pre)
  case Nil
  then show ?case by simp
next
  case (Cons a as)
  from Cons.prems(1) obtain gs genres gc1 where
    g: "py_get a ''genres'' (JArr []) = Inr gs" and i: "py_iter gs = Inr genres" and
    l: "genre_loop genres (gc_of pre) = Inr gc1" and r: "artist_loop as gc1 = Inr gc'"
    by (auto simp: bind_def split: sum.splits)
  have t: "artist_tags a = genres"
    by (simp add: artist_tags_def g i bind_def)
  from genre_loop_gc_of [OF l Cons.prems(2)]
  have h: "list_all hashable (pre @ genres)" and gc1: "gc1 = gc_of (pre @ genres)" by simp_all
  from Cons.IH [OF r [unfolded gc1] h] show ?case by (simp add: t)
qed

lemma get_top_genres_spec:
  assumes "get_top_genres d = Inr out"
  shows "out = take 10 (sort_desc snd (genre_counts (genre_tags d)))"
    and "list_all hashable (genre_tags d)"
proof -
  from assms obtain gc where
    l: "artist_loop (input_items d) [] = Inr gc" and
    out: "out = take 10 (sort_desc snd (map snd gc))"
    unfolding get_top_genres_def input_items_def
    by (auto simp: bind_def split: sum.splits)
  have e: "gc_of [] = []" by (simp add: gc_of_def)
  from artist_loop_gc_of [of "input_items d" "[]", unfolded e, OF l]
  have "list_all hashable (genre_tags d)" and "gc = gc_of (genre_tags d)"
    by (simp_all add: genre_tags_def)
  then show "out = take 10 (sort_desc snd (genre_counts (genre_tags d)))"
    and "list_all hashable (genre_tags d)"
    by (simp_all add: out gc_of_def genre_counts_def comp_def)
qed

lemma sort_desc_stable:
  "filter (\<lambda>e. key e = c) (sort_desc key xs) = filter (\<lambda>e. key e = c) xs"
  using sort_key_stable [of "\<lambda>x. - int (key x)" "- int c" xs]
  by (simp add: sort_desc_def)

lemma prefix_filter_take: "prefix (filter P (take n xs)) (filter P xs)"
proof -
  have "filter P xs = filter P (take n xs) @ filter P (drop n xs)"
    by (metis append_take_drop_id filter_append)
  then show ?thesis by (simp add: prefix_def)
qed

lemma ex_artists_result: "get_top_genres ex_artists = Inr [(JStr ''pop'', 15), (JStr ''rock'', 3)]"
  by code_simp


lemma distinct_map_insort_key:
  "distinct (map f (insort_key k x xs)) \<longleftrightarrow> f x \<notin> f ` set xs \<and> distinct (map f xs)"
  by (induction xs) (auto simp: set_insort_key)

lemma distinct_map_sort_desc:
  "distinct (map f (sort_desc key xs)) \<longleftrightarrow> distinct (map f xs)"
  unfolding sort_desc_def by (induction xs) (auto simp: distinct_map_insort_key)

lemma distinct_map_take: "distinct (map f xs) \<Longrightarrow> distinct (map f (take n xs))"
  by (simp add: take_map [symmetric] del: take_map)

section \<open>The aggregators return on well-shaped listings\<close>

lemma listing_items:
  assumes "well_shaped_listing shaped listing"
  shows "\<exists>xs. bind (py_get listing ''items'' (JArr [])) py_iter = Inr xs \<and> list_all shaped xs"
proof -
  from assms obtain kvs where l: "listing = JObj kvs"
    by (cases listing) (simp_all add: well_shaped_listing_def)
  show ?thesis
  proof (cases "map_of kvs ''items''")
    case None
    then show ?thesis by (simp add: l)
  next
    case (Some v)
    with assms l obtain xs where "v = JArr xs" "list_all shaped xs"
      by (cases v) (simp_all add: well_shaped_listing_def)
    with Some show ?thesis by (simp add: l)
  qed
qed

lemma new_album_stats_returns:
  assumes "absent_or_dicts kvs ''artists''" "absent_or_dict kvs ''external_urls''"
  shows "\<exists>s. new_album_stats (JObj kvs) = Inr s"
proof -
  have ar: "bind (py_get (JObj kvs) ''artists'' (JArr [])) (\<lambda>arts.
              bind (py_iter arts) (\<lambda>art_list. bind (get_each ''name'' art_list) f))
            = f (map (\<lambda>a. field a ''name'') (sub_dicts kvs ''artists''))"
    for f :: "json list \<Rightarrow> exn + album_stats"
    using assms(1)
    by (auto simp: absent_or_dicts_def sub_dicts_def get_each_dicts
        split: option.splits json.splits)
  show ?thesis
    unfolding new_album_stats_def py_get_JObj [of kvs "''name''"] bind_Inr ar
      py_get_JObj [of kvs "''images''"] py_get_JObj [of kvs "''release_date''"]
      py_get_JObj [of kvs "''total_tracks''"] item_get [OF assms(2)]
    by (simp only: py_get_JObj bind_Inr) blast
qed

lemma album_step_returns:
  assumes "well_shaped_track t"
  shows "\<exists>st'. album_step t st = Inr st'"
proof -
  from assms obtain kvs where t: "t = JObj kvs"
    by (cases t) (simp_all add: well_shaped_track_def)
  show ?thesis
  proof (cases "map_of kvs ''album''")
    case None
    then show ?thesis by (simp add: t album_step_def)
  next
    case (Some a)
    with assms t have wa: "well_shaped_album a"
      by (simp add: well_shaped_track_def)
    then obtain akvs where a: "a = JObj akvs"
      by (cases a) (simp_all add: well_shaped_album_def)
    with wa have
      w: "absent_or_dicts akvs ''artists''" "absent_or_dict akvs ''external_urls''"
         "hashable (field akvs ''id'') \<or> \<not> truthy (field akvs ''id'')"
      by (simp_all add: well_shaped_album_def)
    have g: "py_get t ''album'' (JObj []) = Inr (JObj akvs)"
      by (simp add: t Some a)
    have i: "py_get (JObj akvs) ''id'' JNull = Inr (field akvs ''id'')"
      by (simp add: field_def)
    show ?thesis
    proof (cases "truthy (field akvs ''id'')")
      case False
      then show ?thesis
        unfolding album_step_def g bind_Inr i by simp
    next
      case True
      from True w(3) obtain k where k: "py_hash (field akvs ''id'') = Inr k"
        by (auto simp: hashable_def split: sum.splits)
      from new_album_stats_returns [OF w(1,2)] obtain s where s: "new_album_stats (JObj akvs) = Inr s" ..
      show ?thesis
        unfolding album_step_def g bind_Inr i using True k s
        by (simp add: t)
    qed
  qed
qed

lemma album_loop_returns:
  "list_all well_shaped_track ts \<Longrightarrow> \<exists>st'. album_loop ts st = Inr st'"
proof (induction ts arbitrary: st)
  case Nil
  then show ?case by simp
next
  case (Cons t ts)
  then have "well_shaped_track t" and r: "list_all well_shaped_track ts" by simp_all
  from album_step_returns [OF this(1)] obtain st1 where "album_step t st = Inr st1" ..
  with Cons.IH [OF r, of st1] show ?case by simp
qed

lemma get_top_albums_returns:
  assumes "well_shaped_listing well_shaped_track tracks_data"
  shows "\<exists>out. get_top_albums tracks_data = Inr out"
proof -
  from listing_items [OF assms] obtain ts where
    i: "bind (py_get tracks_data ''items'' (JArr [])) py_iter = Inr ts" and
    w: "list_all well_shaped_track ts"
    by blast
  from album_loop_returns [OF w] obtain st where "album_loop ts [] = Inr st" ..
  with i show ?thesis
    unfolding get_top_albums_def by (auto simp: bind_def split: sum.splits)
qed

lemma genre_loop_returns:
  "list_all hashable gs \<Longrightarrow> \<exists>gc'. genre_loop gs gc = Inr gc'"
  by (induction gs arbitrary: gc) (auto simp: genre_step_def hashable_def split: sum.splits)

lemma artist_loop_returns:
  "list_all well_shaped_artist as \<Longrightarrow> \<exists>gc'. artist_loop as gc = Inr gc'"
proof (induction as arbitrary: gc)
  case Nil
  then show ?case by simp
next
  case (Cons a as)
  then have wa: "well_shaped_artist a" and r: "list_all well_shaped_artist as" by simp_all
  from wa obtain kvs where a: "a = JObj kvs"
    by (cases a) (simp_all add: well_shaped_artist_def)
  have "\<exists>gs. bind (py_get a ''genres'' (JArr [])) py_iter = Inr gs \<and> list_all hashable gs"
  proof (cases "map_of kvs ''genres''")
    case None
    then show ?thesis by (simp add: a)
  next
    case (Some v)
    with wa a obtain gs where "v = JArr gs" "list_all hashable gs"
      by (cases v) (simp_all add: well_shaped_artist_def)
    with Some show ?thesis by (simp add: a)
  qed
  then obtain gs where
    g: "bind (py_get a ''genres'' (JArr [])) py_iter = Inr gs" and h: "list_all hashable gs"
    by blast
  from genre_loop_returns [OF h] obtain gc1 where "genre_loop gs gc = Inr gc1" ..
  with g Cons.IH [OF r, of gc1] show ?case
    by (auto simp: bind_def split: sum.splits)
qed

lemma get_top_genres_returns:
  assumes "well_shaped_listing well_shaped_artist artists_data"
  shows "\<exists>out. get_top_genres artists_data = Inr out"
proof -
  from listing_items [OF assms] obtain as where
    i: "bind (py_get artists_data ''items'' (JArr [])) py_iter = Inr as" and
    w: "list_all well_shaped_artist as"
    by blast
  from artist_loop_returns [OF w] obtain gc where "artist_loop as [] = Inr gc" ..
  with i show ?thesis
    unfolding get_top_genres_def by (auto simp: bind_def split: sum.splits)
qed


section \<open>Properties of \<^verbatim>\<open>get_top_genres\<close>\<close>

lemma ex_artists_shaped: "well_shaped_listing well_shaped_artist ex_artists"
  by (simp add: well_shaped_listing_def well_shaped_artist_def ex_artists_def hashable_def
      list_all_iff)

lemma sorted_wrt_take_drop:
  assumes "sorted_wrt R xs" and "x \<in> set (take n xs)" and "y \<in> set xs" and "y \<notin> set (take n xs)"
  shows "R x y"
proof -
  have "set xs = set (take n xs) \<union> set (drop n xs)"
    by (metis append_take_drop_id set_append)
  with assms(3,4) have "y \<in> set (drop n xs)" by blast
  moreover have "sorted_wrt R (take n xs @ drop n xs)"
    using assms(1) by simp
  ultimately show ?thesis
    using assms(2) unfolding sorted_wrt_append by blast
qed

text \<open>
  C7. For every well-shaped artist list \<^verbatim>\<open>get_top_genres\<close> returns, and whenever it
  returns, the result is an ordered mapping from genre to count with at most
  10 entries and distinct keys: the genre-count mapping in first-seen order,
  sorted by count descending by a stable sort and cut to its first 10 entries
  (so it has 10 entries, or all of them where there are fewer, and no entry
  left out has a greater count than one kept). It is sorted non-increasing by
  count, each count is the number of occurrences of the genre among the genre
  tags of all artists, and the entries of equal count stand in first-seen
  order. Fifteen artists tagged \<^verbatim>\<open>["pop"]\<close> and three tagged \<^verbatim>\<open>["rock"]\<close> give
  \<^verbatim>\<open>{"pop": 15, "rock": 3}\<close> in that order.
\<close>

theorem get_top_genres_correct:
  "(well_shaped_listing well_shaped_artist artists_data \<longrightarrow>
      (\<exists>out. get_top_genres artists_data = Inr out)) \<and>
   (\<forall>out. get_top_genres artists_data = Inr out \<longrightarrow>
      out = take 10 (sort_key (\<lambda>e. - int (snd e)) (genre_counts (genre_tags artists_data))) \<and>
      length out = min 10 (length (genre_counts (genre_tags artists_data))) \<and>
      set out \<subseteq> set (genre_counts (genre_tags artists_data)) \<and>
      (\<forall>e \<in> set (genre_counts (genre_tags artists_data)) - set out.
         \<forall>e' \<in> set out. snd e \<le> snd e') \<and>
      distinct (map (\<lambda>e. py_hash (fst e)) out) \<and>
      sorted_wrt (\<lambda>a b. snd b \<le> snd a) out \<and>
      (\<forall>e \<in> set out. snd e = occurrences (genre_tags artists_data) (fst e)) \<and>
      (\<forall>c. prefix (filter (\<lambda>e. snd e = c) out)
              (filter (\<lambda>e. snd e = c) (genre_counts (genre_tags artists_data))))) \<and>
   get_top_genres ex_artists = Inr [(JStr ''pop'', 15), (JStr ''rock'', 3)]"
proof (intro conjI allI impI)
  assume "well_shaped_listing well_shaped_artist artists_data"
  then show "\<exists>out. get_top_genres artists_data = Inr out"
    by (rule get_top_genres_returns)
next
  show "get_top_genres ex_artists = Inr [(JStr ''pop'', 15), (JStr ''rock'', 3)]"
    by (rule ex_artists_result)
next
  fix out
  assume r: "get_top_genres artists_data = Inr out"
  let ?tags = "genre_tags artists_data"
  let ?all = "sort_desc snd (genre_counts ?tags)"
  note spec = get_top_genres_spec [OF r]
  have 1: "out = take 10 ?all" by (rule spec(1))
  have sall: "set ?all = set (genre_counts ?tags)"
    by (simp add: sort_desc_def)
  have srt: "sorted_wrt (\<lambda>a b. snd b \<le> snd a) ?all"
    by (rule sorted_sort_desc)
  show "out = take 10 (sort_key (\<lambda>e. - int (snd e)) (genre_counts ?tags))"
    using 1 by (simp add: sort_desc_def)
  show "length out = min 10 (length (genre_counts ?tags))"
    by (simp add: 1 sort_desc_def min.commute)
  show sub: "set out \<subseteq> set (genre_counts ?tags)"
    unfolding 1 using set_take_subset [of 10 ?all] sall by simp
  show "\<forall>e \<in> set (genre_counts ?tags) - set out. \<forall>e' \<in> set out. snd e \<le> snd e'"
  proof (intro ballI)
    fix e e'
    assume "e \<in> set (genre_counts ?tags) - set out" and "e' \<in> set out"
    then have "e' \<in> set (take 10 ?all)" "e \<in> set ?all" "e \<notin> set (take 10 ?all)"
      using sall by (simp_all add: 1)
    with srt show "snd e \<le> snd e'"
      by (rule sorted_wrt_take_drop)
  qed
  have h: "hashable (fst e)" if "e \<in> set out" for e
  proof -
    from that sub have "fst e \<in> set (first_seen ?tags)"
      by (auto simp: genre_counts_def)
    then show ?thesis
      using first_seen_subset [of ?tags] spec(2) by (auto simp: list_all_iff)
  qed
  have "distinct (map (\<lambda>e. key_of (fst e)) (genre_counts ?tags))"
    using first_seen_distinct [OF spec(2)] by (simp add: genre_counts_def comp_def)
  then have dk: "distinct (map (\<lambda>e. key_of (fst e)) out)"
    unfolding 1 by (intro distinct_map_take) (simp add: distinct_map_sort_desc)
  have "map (\<lambda>e. py_hash (fst e)) out
          = map (\<lambda>k. Inr k :: exn + pykey) (map (\<lambda>e. key_of (fst e)) out)"
    using h by (simp add: hashable_py_hash)
  then show "distinct (map (\<lambda>e. py_hash (fst e)) out)"
    using dk by (simp add: distinct_map inj_on_def del: map_map)
  show "sorted_wrt (\<lambda>a b. snd b \<le> snd a) out"
    unfolding 1 using srt by (rule sorted_wrt_take)
  show "\<forall>e \<in> set out. snd e = occurrences ?tags (fst e)"
    using sub by (auto simp: genre_counts_def)
  show "prefix (filter (\<lambda>e. snd e = c) out) (filter (\<lambda>e. snd e = c) (genre_counts ?tags))" for c
    using prefix_filter_take [of "\<lambda>e. snd e = c" 10 ?all]
    by (simp add: 1 sort_desc_stable)
qed

theorem get_top_genres_correct_witness:
  "well_shaped_listing well_shaped_artist ex_artists \<and>
   get_top_genres ex_artists = Inr [(JStr ''pop'', 15), (JStr ''rock'', 3)] \<and>
   [(JStr ''pop'', 15), (JStr ''rock'', 3)]
     = take 10 (sort_key (\<lambda>e. - int (snd e)) (genre_counts (genre_tags ex_artists))) \<and>
   length [(JStr ''pop'', 15 :: nat), (JStr ''rock'', 3)]
     = min 10 (length (genre_counts (genre_tags ex_artists))) \<and>
   occurrences (genre_tags ex_artists) (JStr ''pop'') = 15 \<and>
   occurrences (genre_tags ex_artists) (JStr ''rock'') = 3"
proof -
  note t = get_top_genres_correct [of ex_artists, THEN conjunct2, THEN conjunct1,
      THEN spec, THEN mp, OF ex_artists_result]
  have "snd (JStr ''pop'', 15 :: nat) = occurrences (genre_tags ex_artists) (fst (JStr ''pop'', 15 :: nat))"
    "snd (JStr ''rock'', 3 :: nat) = occurrences (genre_tags ex_artists) (fst (JStr ''rock'', 3 :: nat))"
    using t by simp_all
  then have o: "occurrences (genre_tags ex_artists) (JStr ''pop'') = 15"
    "occurrences (genre_tags ex_artists) (JStr ''rock'') = 3"
    by simp_all
  from t have e: "[(JStr ''pop'', 15), (JStr ''rock'', 3)]
     = take 10 (sort_key (\<lambda>e. - int (snd e)) (genre_counts (genre_tags ex_artists)))"
    and l: "length [(JStr ''pop'', 15 :: nat), (JStr ''rock'', 3)]
     = min 10 (length (genre_counts (genre_tags ex_artists)))"
    by blast+
  from ex_artists_shaped ex_artists_result e l o show ?thesis by (intro conjI)
qed

section \<open>\<^verbatim>\<open>POST /refresh-token\<close>: what the blanket handler does to its own errors\<close>

text \<open>
  C1. A \<^verbatim>\<open>POST /refresh-token\<close> request whose body lacks the \<^verbatim>\<open>refresh_token\<close> field
  (absent, null or empty) is to be answered with status 400. The handler
  raises the 400 inside its own \<^verbatim>\<open>try\<close>, the clause \<^verbatim>\<open>except Exception\<close> catches it, and the
  answer is status 500.
\<close>

theorem refresh_token_missing_field:
  "refresh_token str_e cfg upstream (Some (JObj [])) =
     Inl (HTTPException 500 (str_e (HTTPException 400 ''Refresh token is required''))) \<and>
   refresh_token str_e cfg upstream (Some (JObj [(''refresh_token'', JNull)])) =
     Inl (HTTPException 500 (str_e (HTTPException 400 ''Refresh token is required''))) \<and>
   refresh_token str_e cfg upstream (Some (JObj [(''refresh_token'', JStr [])])) =
     Inl (HTTPException 500 (str_e (HTTPException 400 ''Refresh token is required''))) \<and>
   status_of (refresh_token str_e cfg upstream (Some (JObj []))) = 500"
  by (simp add: refresh_token_def refresh_token_try_def except_Exception_def)

text \<open>Every error that leaves the handler has status 500.\<close>

lemma refresh_token_error_status:
  "refresh_token str_e cfg upstream req = Inl e \<Longrightarrow> \<exists>d. e = HTTPException 500 d"
  by (auto simp: refresh_token_def except_Exception_def split: sum.splits)

text \<open>
  C2. When the upstream token endpoint answers a \<^verbatim>\<open>POST /refresh-token\<close> request
  with a failure status, the handler is to forward that status. It raises an
  \<^verbatim>\<open>HTTPException\<close> with the upstream status, the clause \<^verbatim>\<open>except Exception\<close> catches it, and the
  answer is status 500: here for an upstream 400.
\<close>

theorem refresh_token_upstream_failure:
  "refresh_token str_e ex_cfg ex_rejecting_upstream
       (Some (JObj [(''refresh_token'', JStr ''abc'')])) =
     Inl (HTTPException 500
            (str_e (HTTPException 400 ''Failed to refresh token: invalid_grant''))) \<and>
   status_of (refresh_token str_e ex_cfg ex_rejecting_upstream
       (Some (JObj [(''refresh_token'', JStr ''abc'')]))) = 500"
  by (simp add: refresh_token_def refresh_token_try_def except_Exception_def
      refresh_authorization_def refresh_auth_header_def ex_cfg_def ex_rejecting_upstream_def
      fmt_def encode_ascii_def response_ok_def)

section \<open>Token expiry on the playback endpoints\<close>

text \<open>
  C8. For every request to \<^verbatim>\<open>/recently-played\<close> or \<^verbatim>\<open>/currently-playing\<close>, if the
  upstream endpoint answers with status 401, the handler's answer has status
  401 with detail \<^verbatim>\<open>Token expired\<close>; the surrounding error handling does not turn
  it into a 500.
\<close>

theorem token_expired_401:
  "(upstream (get_request recently_played_url access_token) = Inr r \<and> status_code r = 401 \<longrightarrow>
      get_recently_played str_e upstream access_token =
        Inl (HTTPException 401 ''Token expired'') \<and>
      status_of (get_recently_played str_e upstream access_token) = 401) \<and>
   (upstream (get_request currently_playing_url access_token) = Inr r' \<and> status_code r' = 401 \<longrightarrow>
      get_currently_playing str_e upstream access_token =
        Inl (HTTPException 401 ''Token expired'') \<and>
      status_of (get_currently_playing str_e upstream access_token) = 401)"
  by (simp add: get_recently_played_def get_currently_playing_def)

theorem token_expired_401_witness:
  "get_recently_played (\<lambda>e. []) ex_expired_upstream ''token'' =
     Inl (HTTPException 401 ''Token expired'') \<and>
   status_of (get_recently_played (\<lambda>e. []) ex_expired_upstream ''token'') = 401 \<and>
   get_currently_playing (\<lambda>e. []) ex_expired_upstream ''token'' =
     Inl (HTTPException 401 ''Token expired'') \<and>
   status_of (get_currently_playing (\<lambda>e. []) ex_expired_upstream ''token'') = 401"
proof -
  let ?r = "\<lparr>status_code = 401, body_text = [], json_body = None\<rparr>"
  have a: "ex_expired_upstream (get_request recently_played_url ''token'') = Inr ?r"
    "ex_expired_upstream (get_request currently_playing_url ''token'') = Inr ?r"
    by (simp_all add: ex_expired_upstream_def)
  have b: "status_code ?r = 401" by simp
  show ?thesis
    using token_expired_401 [where upstream = ex_expired_upstream and access_token = "''token''"
        and r = ?r and r' = ?r and str_e = "\<lambda>e. []"] a b
    by simp
qed

section \<open>The shaped payload of \<^verbatim>\<open>/currently-playing\<close>\<close>

lemma track_data_ok:
  assumes "absent_or_dict data ''item''"
    and "absent_or_dict (sub_dict data ''item'') ''album''"
    and "absent_or_dict (sub_dict data ''item'') ''external_urls''"
    and "absent_or_dicts (sub_dict data ''item'') ''artists''"
  shows "track_data (JObj data) = Inr (track_view data)"
proof -
  note i = item_get [OF assms(1)]
  note a = item_get [OF assms(2)]
  note u = item_get [OF assms(3)]
  have ar: "bind (py_get (JObj (sub_dict data ''item'')) ''artists'' (JArr [])) (\<lambda>arts.
              bind (py_iter arts) (\<lambda>art_list. bind (get_each ''name'' art_list) f))
            = f (map (\<lambda>a. field a ''name'') (sub_dicts (sub_dict data ''item'') ''artists''))"
    for f :: "json list \<Rightarrow> exn + json"
    using assms(4)
    by (auto simp: absent_or_dicts_def sub_dicts_def get_each_dicts
        split: option.splits json.splits)
  show ?thesis
    unfolding track_data_def i bind_Inr a u ar
    by (simp add: track_view_def field_def field_or_def Let_def)
qed

text \<open>An \<^verbatim>\<open>item\<close> that is present and \<^verbatim>\<open>null\<close> is not tolerated: \<^verbatim>\<open>None\<close> has no \<^verbatim>\<open>get\<close>.\<close>

lemma currently_playing_null_item:
  "get_currently_playing str_e (ex_playing_upstream (JObj [(''item'', JNull)])) tok
     = Inl AttributeError"
  by (simp add: get_currently_playing_def ex_playing_upstream_def raise_for_status_def
      response_json_def track_data_def)

text \<open>
  C5 (as amended). For every upstream 200 payload that is an object in which
  \<^verbatim>\<open>item\<close>, the item's \<^verbatim>\<open>album\<close> and the item's \<^verbatim>\<open>external_urls\<close> are each missing or an
  object, and the item's \<^verbatim>\<open>artists\<close> is missing or a list of objects, the
  currently-playing handler answers 200 with the shaped payload and does not
  fail. A missing key gives \<^verbatim>\<open>null\<close> for the name, the album name, the duration, the
  progress and the external URL, and the empty list for the artists and the
  album images; so a payload without the \<^verbatim>\<open>item\<close> key gives a track whose name,
  duration and external URL are \<^verbatim>\<open>null\<close>, whose artists are \<^verbatim>\<open>[]\<close> and whose album is
  \<^verbatim>\<open>{name: null, images: []}\<close>.
\<close>

theorem currently_playing_fields:
  assumes "upstream (get_request currently_playing_url access_token) = Inr r"
    and "status_code r = 200"
    and "json_body r = Some (JObj data)"
    and "absent_or_dict data ''item''"
    and "absent_or_dict (sub_dict data ''item'') ''album''"
    and "absent_or_dict (sub_dict data ''item'') ''external_urls''"
    and "absent_or_dicts (sub_dict data ''item'') ''artists''"
  shows "get_currently_playing str_e upstream access_token =
           Inr (JSONResponse (track_view data) cors_headers_playing) \<and>
         status_of (get_currently_playing str_e upstream access_token) = 200 \<and>
         (map_of data ''item'' = None \<longrightarrow>
            track_view data =
              JObj [(''is_playing'', field_or data ''is_playing'' (JBool False)),
                    (''track'', JObj
                       [(''name'', JNull),
                        (''artists'', JArr []),
                        (''album'', JObj [(''name'', JNull), (''images'', JArr [])]),
                        (''duration_ms'', JNull),
                        (''progress_ms'', field data ''progress_ms''),
                        (''external_url'', JNull)])])"
proof -
  have t: "track_data (JObj data) = Inr (track_view data)"
    using assms(4-7) by (rule track_data_ok)
  have 1: "get_currently_playing str_e upstream access_token =
           Inr (JSONResponse (track_view data) cors_headers_playing)"
    using assms(1-3) t
    by (simp add: get_currently_playing_def raise_for_status_def response_json_def)
  have 3: "track_view data =
              JObj [(''is_playing'', field_or data ''is_playing'' (JBool False)),
                    (''track'', JObj
                       [(''name'', JNull),
                        (''artists'', JArr []),
                        (''album'', JObj [(''name'', JNull), (''images'', JArr [])]),
                        (''duration_ms'', JNull),
                        (''progress_ms'', field data ''progress_ms''),
                        (''external_url'', JNull)])]"
    if "map_of data ''item'' = None"
    using that by (simp add: track_view_def sub_dict_def sub_dicts_def field_def field_or_def)
  from 1 3 show ?thesis by simp
qed

theorem currently_playing_fields_witness:
  "get_currently_playing (\<lambda>e. []) (ex_playing_upstream (JObj ex_no_item)) ''token'' =
     Inr (JSONResponse
       (JObj [(''is_playing'', JBool False),
              (''track'', JObj
                 [(''name'', JNull),
                  (''artists'', JArr []),
                  (''album'', JObj [(''name'', JNull), (''images'', JArr [])]),
                  (''duration_ms'', JNull),
                  (''progress_ms'', JInt 0),
                  (''external_url'', JNull)])])
       cors_headers_playing)"
proof -
  let ?r = "\<lparr>status_code = 200, body_text = [], json_body = Some (JObj ex_no_item)\<rparr>"
  have a: "ex_playing_upstream (JObj ex_no_item) (get_request currently_playing_url ''token'')
             = Inr ?r"
    by (simp add: ex_playing_upstream_def)
  have b: "map_of ex_no_item ''item'' = None"
    by (simp add: ex_no_item_def)
  have c: "absent_or_dict ex_no_item ''item''"
    "absent_or_dict (sub_dict ex_no_item ''item'') ''album''"
    "absent_or_dict (sub_dict ex_no_item ''item'') ''external_urls''"
    "absent_or_dicts (sub_dict ex_no_item ''item'') ''artists''"
    by (simp_all add: absent_or_dict_def absent_or_dicts_def sub_dict_def ex_no_item_def)
  have d: "field_or ex_no_item ''is_playing'' (JBool False) = JBool False"
    "field ex_no_item ''progress_ms'' = JInt 0"
    by (simp_all add: field_def field_or_def ex_no_item_def)
  show ?thesis
    using currently_playing_fields [where upstream = "ex_playing_upstream (JObj ex_no_item)"
        and access_token = "''token''" and r = ?r and data = ex_no_item and str_e = "\<lambda>e. []"]
      a b c d
    by simp
qed

text \<open>The claim as stated fails on the empty payload \<^verbatim>\<open>{}\<close>: the track's artists are
  the empty list and its album is an object, not \<^verbatim>\<open>null\<close>.\<close>

theorem currently_playing_not_all_null:
  "get_currently_playing (\<lambda>e. []) (ex_playing_upstream (JObj [])) ''token'' =
     Inr (JSONResponse
       (JObj [(''is_playing'', JBool False),
              (''track'', JObj
                 [(''name'', JNull),
                  (''artists'', JArr []),
                  (''album'', JObj [(''name'', JNull), (''images'', JArr [])]),
                  (''duration_ms'', JNull),
                  (''progress_ms'', JNull),
                  (''external_url'', JNull)])])
       cors_headers_playing) \<and>
   \<not> track_subfields_null
       (JObj [(''is_playing'', JBool False),
              (''track'', JObj
                 [(''name'', JNull),
                  (''artists'', JArr []),
                  (''album'', JObj [(''name'', JNull), (''images'', JArr [])]),
                  (''duration_ms'', JNull),
                  (''progress_ms'', JNull),
                  (''external_url'', JNull)])])"
  by (simp add: get_currently_playing_def ex_playing_upstream_def raise_for_status_def
      response_json_def track_data_def track_subfields_null_def)

section \<open>The authorize URL of \<^verbatim>\<open>/login\<close>\<close>

lemma url_quote_append: "url_quote (a @ b) = url_quote a @ url_quote b"
  by (simp add: url_quote_def)

lemma url_quote_safe: "list_all quote_safe s \<Longrightarrow> url_quote s = s"
  by (induction s) (simp_all add: url_quote_def)

lemma url_quote_scopes:
  "url_quote (join_space login_scopes) = url_escape (join_space login_scopes)"
  by (simp add: login_scopes_def url_quote_def url_escape_def quote_safe_def unreserved_def
      percent_byte_def utf8_bytes_def)

lemma url_quote_fixed:
  "url_quote ''https://accounts.spotify.com/authorize?response_type=code&client_id=''
     = ''https://accounts.spotify.com/authorize?response_type=code&client_id''
       @ ''=''"
  "url_quote ''&redirect_uri='' = ''&redirect_uri=''"
  "url_quote ''&scope='' = ''&scope=''"
  by (simp_all add: url_quote_def quote_safe_def)

lemma auth_url_scopes:
  "auth_url cfg =
     ''https://accounts.spotify.com/authorize?response_type=code&client_id=''
     @ fmt (SPOTIFY_CLIENT_ID cfg) @ ''&redirect_uri='' @ fmt (SPOTIFY_REDIRECT_URI cfg)
     @ ''&scope='' @ join_space login_scopes"
  by (simp add: auth_url_def login_scopes_def)

text \<open>
  C6. The authorize URL that the login endpoint redirects to is a fixed
  function of the configuration: the authorize address, the client id and
  the redirect URI, and the five scopes joined by a single space and then
  URL-escaped as the one value of the \<^verbatim>\<open>scope\<close> parameter. Where the client id and
  the redirect URI need no quoting, it is the URL of \<^verbatim>\<open>buildAuthorizeUrl\<close>.
\<close>

theorem login_url:
  "login cfg = Inr (Redirect
     (''https://accounts.spotify.com/authorize?response_type=code&client_id=''
      @ url_quote (fmt (SPOTIFY_CLIENT_ID cfg))
      @ ''&redirect_uri='' @ url_quote (fmt (SPOTIFY_REDIRECT_URI cfg))
      @ ''&scope='' @ url_escape (join_space login_scopes))) \<and>
   (list_all quote_safe (fmt (SPOTIFY_CLIENT_ID cfg) @ fmt (SPOTIFY_REDIRECT_URI cfg)) \<longrightarrow>
      login cfg = Inr (Redirect
        (build_authorize_url (fmt (SPOTIFY_CLIENT_ID cfg)) (fmt (SPOTIFY_REDIRECT_URI cfg))
           login_scopes)))"
proof -
  have 1: "login cfg = Inr (Redirect
     (''https://accounts.spotify.com/authorize?response_type=code&client_id=''
      @ url_quote (fmt (SPOTIFY_CLIENT_ID cfg))
      @ ''&redirect_uri='' @ url_quote (fmt (SPOTIFY_REDIRECT_URI cfg))
      @ ''&scope='' @ url_escape (join_space login_scopes)))"
    unfolding login_def login_try_def RedirectResponse_def auth_url_scopes url_quote_append
      url_quote_fixed url_quote_scopes
    by simp
  have 2: "login cfg = Inr (Redirect
        (build_authorize_url (fmt (SPOTIFY_CLIENT_ID cfg)) (fmt (SPOTIFY_REDIRECT_URI cfg))
           login_scopes))"
    if "list_all quote_safe (fmt (SPOTIFY_CLIENT_ID cfg) @ fmt (SPOTIFY_REDIRECT_URI cfg))"
  proof -
    from that have "url_quote (fmt (SPOTIFY_CLIENT_ID cfg)) = fmt (SPOTIFY_CLIENT_ID cfg)"
      "url_quote (fmt (SPOTIFY_REDIRECT_URI cfg)) = fmt (SPOTIFY_REDIRECT_URI cfg)"
      by (simp_all add: url_quote_safe)
    with 1 show ?thesis by (simp add: build_authorize_url_def)
  qed
  from 1 2 show ?thesis by blast
qed

theorem login_url_witness:
  "list_all quote_safe (''id'' @ ''http://localhost/callback'') \<and>
   login ex_cfg = Inr (Redirect
     (build_authorize_url ''id'' ''http://localhost/callback'' login_scopes)) \<and>
   build_authorize_url ''id'' ''http://localhost/callback'' login_scopes =
     ''https://accounts.spotify.com/authorize?response_type=code&client_id=id''
      @ ''&redirect_uri=http://localhost/callback''
      @ ''&scope=user-read-recently-played%20user-read-private%20user-read-email''
      @ ''%20user-top-read%20user-read-currently-playing''"
proof -
  have h: "list_all quote_safe (''id'' @ ''http://localhost/callback'')"
    by (simp add: quote_safe_def)
  have f: "fmt (SPOTIFY_CLIENT_ID ex_cfg) = ''id''"
    "fmt (SPOTIFY_REDIRECT_URI ex_cfg) = ''http://localhost/callback''"
    by (simp_all add: ex_cfg_def fmt_def)
  have h': "list_all quote_safe (fmt (SPOTIFY_CLIENT_ID ex_cfg) @ fmt (SPOTIFY_REDIRECT_URI ex_cfg))"
    unfolding f by (rule h)
  have t: "login ex_cfg = Inr (Redirect
     (build_authorize_url ''id'' ''http://localhost/callback'' login_scopes))"
    using login_url [of ex_cfg, THEN conjunct2, THEN mp, OF h'] unfolding f .
  have b: "build_authorize_url ''id'' ''http://localhost/callback'' login_scopes =
     ''https://accounts.spotify.com/authorize?response_type=code&client_id=id''
      @ ''&redirect_uri=http://localhost/callback''
      @ ''&scope=user-read-recently-played%20user-read-private%20user-read-email''
      @ ''%20user-top-read%20user-read-currently-playing''"
    by (simp add: build_authorize_url_def login_scopes_def url_escape_def unreserved_def
        hex_digit_def)
  from h t b show ?thesis by (intro conjI)
qed

text \<open>A client id with a space is quoted as well.\<close>

lemma login_url_quotes_client_id:
  "login \<lparr>SPOTIFY_CLIENT_ID = Some ''a b'', SPOTIFY_CLIENT_SECRET = None,
          SPOTIFY_REDIRECT_URI = Some ''u''\<rparr>
     = Inr (Redirect
        (''https://accounts.spotify.com/authorize?response_type=code&client_id=a%20b''
         @ ''&redirect_uri=u''
         @ ''&scope=user-read-recently-played%20user-read-private%20user-read-email''
         @ ''%20user-top-read%20user-read-currently-playing''))"
  by (simp add: login_def login_try_def RedirectResponse_def auth_url_def url_quote_def
      quote_safe_def percent_byte_def utf8_bytes_def hex_digit_def fmt_def)

section \<open>The Basic-auth header of the two token operations\<close>

lemma b64encode_example:
  "b64encode ''Aladdin:open sesame'' = ''QWxhZGRpbjpvcGVuIHNlc2FtZQ==''"
  by (simp add: b64encode_def b64_char_def b64_alphabet_def)

text \<open>
  C9 (as amended). For every client id and client secret made of ASCII
  characters only, the \<^verbatim>\<open>Authorization\<close> value computed by the refresh operation
  equals the Basic credentials of the authorization-code exchange: \<^verbatim>\<open>Basic\<close>
  followed by the base64 of \<^verbatim>\<open>clientId:clientSecret\<close>.
\<close>

theorem basic_auth_same:
  assumes "list_all (\<lambda>c. (of_char c :: nat) < 128) (clientId @ clientSecret)"
  shows "refresh_authorization
           \<lparr>SPOTIFY_CLIENT_ID = Some clientId, SPOTIFY_CLIENT_SECRET = Some clientSecret,
            SPOTIFY_REDIRECT_URI = u\<rparr>
         = Inr (exchange_basic_auth clientId clientSecret)"
  using assms
  by (simp add: refresh_authorization_def refresh_auth_header_def fmt_def encode_ascii_def
      exchange_basic_auth_def)

theorem basic_auth_same_witness:
  "list_all (\<lambda>c. (of_char c :: nat) < 128) (''id'' @ ''secret'') \<and>
   refresh_authorization ex_cfg = Inr ''Basic aWQ6c2VjcmV0'' \<and>
   exchange_basic_auth ''id'' ''secret'' = ''Basic aWQ6c2VjcmV0''"
proof -
  have h: "list_all (\<lambda>c. (of_char c :: nat) < 128) (''id'' @ ''secret'')" by simp
  have e: "exchange_basic_auth ''id'' ''secret'' = ''Basic aWQ6c2VjcmV0''"
    by (simp add: exchange_basic_auth_def b64encode_def b64_char_def b64_alphabet_def)
  show ?thesis
    using h e basic_auth_same [OF h, of "Some ''http://localhost/callback''"]
    by (simp add: ex_cfg_def)
qed

text \<open>The claim as stated fails for a client id with a character outside ASCII:
  the refresh operation raises \<^verbatim>\<open>UnicodeEncodeError\<close> and computes no header.\<close>

theorem basic_auth_differs:
  "refresh_authorization
     \<lparr>SPOTIFY_CLIENT_ID = Some [CHR 0xE9], SPOTIFY_CLIENT_SECRET = Some ''secret'',
      SPOTIFY_REDIRECT_URI = None\<rparr>
     \<noteq> Inr (exchange_basic_auth [CHR 0xE9] ''secret'')"
  by (simp add: refresh_authorization_def refresh_auth_header_def fmt_def encode_ascii_def)

section \<open>The default of \<^verbatim>\<open>expires_in\<close> in \<^verbatim>\<open>/callback\<close>\<close>




text \<open>The fetches return where every address answers with JSON, and the
  aggregation returns on well-shaped listings.\<close>

lemma fetch_lists_returns:
  assumes "\<And>u. \<exists>r j. upstream (get_request u bearer) = Inr r \<and> json_body r = Some j"
  shows "\<exists>l. fetch_lists upstream bearer = Inr l"
proof -
  have g: "\<exists>j. get_json upstream bearer u = Inr j" for u
  proof -
    from assms [of u] obtain r j where "upstream (get_request u bearer) = Inr r" "json_body r = Some j"
      by blast
    then show ?thesis by (simp add: get_json_def response_json_def)
  qed
  show ?thesis
    unfolding fetch_lists_def by (intro bind_returns g) blast
qed

lemma aggregate_lists_returns:
  assumes "well_shaped_listing well_shaped_track (short_term_tracks l)"
    and "well_shaped_listing well_shaped_track (medium_term_tracks l)"
    and "well_shaped_listing well_shaped_track (long_term_tracks l)"
    and "well_shaped_listing well_shaped_artist (short_term_artists l)"
    and "well_shaped_listing well_shaped_artist (medium_term_artists l)"
    and "well_shaped_listing well_shaped_artist (long_term_artists l)"
  shows "\<exists>agg. aggregate_lists l = Inr agg"
  unfolding aggregate_lists_def
  by (intro bind_returns get_top_albums_returns get_top_genres_returns assms) blast



end
